theory Spec2Isabelle
  imports Complex_Main "HOL-Library.AList" "HOL-Library.Multiset"
begin

section \<open>Positions and grids\<close>

text \<open>
  A \<^verbatim>\<open>Position {x, y}\<close> is the pair \<open>(x, y)\<close>; coordinates are integers.
  A grid is \<^verbatim>\<open>number[][]\<close>, indexed \<^verbatim>\<open>grid[y][x]\<close>, with
  0 = empty, 1 = obstacle, 2 = start, 3 = end. Reading a row beyond its length gives
  \<^verbatim>\<open>undefined\<close> in the source, which is \<open>None\<close> here.
\<close>

type_synonym Position = "int \<times> int"
type_synonym Grid = "int list list"

definition cell :: "Grid \<Rightarrow> int \<Rightarrow> int \<Rightarrow> int option" where
  "cell gr x y =
     (let row = gr ! nat y in if 0 \<le> x \<and> nat x < length row then Some (row ! nat x) else None)"

text \<open>
  The coordinates of a submitted move are what the request body holds. \<^verbatim>\<open>validateMove\<close>
  tests them with \<^verbatim>\<open>isInt\<close> and does not convert them, and \<^verbatim>\<open>submitMove\<close> passes
  them on as they are, so a coordinate reaches \<^verbatim>\<open>processMove\<close> as a number or as a
  string of decimal digits: \<open>Str d ds\<close> is the string that consists of the digit \<open>d\<close>
  followed by the digits \<open>ds\<close>, so \<open>Str D1 []\<close> is \<^verbatim>\<open>'1'\<close> and \<open>Str D0 [D1]\<close> is
  \<^verbatim>\<open>'01'\<close>. \<^verbatim>\<open>processMove\<close> stores the coordinates it was given, so the positions of
  the round state are pairs of such coordinates.

  \<open>toNumber\<close> is the number a coordinate is read as by \<^verbatim>\<open>-\<close>, \<^verbatim>\<open><\<close>
  and \<^verbatim>\<open>>=\<close>. \<open>canonical c\<close> says that \<open>c\<close>, used as a property key of an array,
  names the element at index \<open>toNumber c\<close> (when that is not negative): a number does, and
  so does a digit string without a leading zero; a key such as \<^verbatim>\<open>'01'\<close> names no
  element and reads \<^verbatim>\<open>undefined\<close>. The operator \<^verbatim>\<open>===\<close> on two coordinates is
  equality of the values of this type: a number never equals a string.
\<close>

datatype digit = D0 | D1 | D2 | D3 | D4 | D5 | D6 | D7 | D8 | D9

datatype coord = Num int | Str digit "digit list"

type_synonym RawPosition = "coord \<times> coord"

fun digitValue :: "digit \<Rightarrow> int" where
  "digitValue D0 = 0" | "digitValue D1 = 1" | "digitValue D2 = 2" | "digitValue D3 = 3"
| "digitValue D4 = 4" | "digitValue D5 = 5" | "digitValue D6 = 6" | "digitValue D7 = 7"
| "digitValue D8 = 8" | "digitValue D9 = 9"

fun toNumber :: "coord \<Rightarrow> int" where
  "toNumber (Num n) = n"
| "toNumber (Str d ds) = foldl (\<lambda>v c. 10 * v + digitValue c) 0 (d # ds)"

fun canonical :: "coord \<Rightarrow> bool" where
  "canonical (Num n) = True"
| "canonical (Str d ds) = (d \<noteq> D0 \<or> ds = [])"

text \<open>The numbers a position's coordinates are read as, and the position object whose
  coordinates are the numbers of a pair.\<close>

definition numbers :: "RawPosition \<Rightarrow> Position" where
  "numbers p = (toNumber (fst p), toNumber (snd p))"

definition raw :: "Position \<Rightarrow> RawPosition" where
  "raw q = (Num (fst q), Num (snd q))"


section \<open>pathfindingService: the helpers used by the move pipeline\<close>

definition heuristic :: "Position \<Rightarrow> Position \<Rightarrow> int" where
  "heuristic a b = abs (fst a - fst b) + abs (snd a - snd b)"

text \<open>The bounds are tested left to right, so \<^verbatim>\<open>grid[0]\<close> is read only when the grid has a row.\<close>

definition isWalkable :: "Grid \<Rightarrow> int \<Rightarrow> int \<Rightarrow> bool" where
  "isWalkable gr x y =
     (if x < 0 \<or> y < 0 \<or> int (length gr) \<le> y then False
      else if int (length (gr ! 0)) \<le> x then False
      else cell gr x y \<noteq> Some 1)"

definition isValidMove :: "Position \<Rightarrow> Position \<Rightarrow> bool" where
  "isValidMove from to =
     (let dx = abs (fst from - fst to); dy = abs (snd from - snd to)
      in (dx = 1 \<and> dy = 0) \<or> (dx = 0 \<and> dy = 1))"

text \<open>
  A \<^verbatim>\<open>PathNode\<close>. The parent is a reference to another node in the source; a node is
  only ever mutated while it is in the open set, and only a node already taken out of the
  open set becomes a parent, so a parent is a fixed value and the node carries it.
\<close>

datatype PathNode =
  PathNode (node_x: int) (node_y: int) (node_g: int) (node_h: int) (node_f: int)
    (node_parent: "PathNode option")

text \<open>\<^verbatim>\<open>new PathNode(x, y, parent)\<close>.\<close>

definition newPathNode :: "int \<Rightarrow> int \<Rightarrow> PathNode option \<Rightarrow> PathNode" where
  "newPathNode x y parent = PathNode x y 0 0 0 parent"

definition nodePos :: "PathNode \<Rightarrow> Position" where
  "nodePos n = (node_x n, node_y n)"

definition directions :: "(int \<times> int) list" where
  "directions = [(0, -1), (0, 1), (-1, 0), (1, 0)]"

definition getNeighbors :: "Grid \<Rightarrow> PathNode \<Rightarrow> PathNode list" where
  "getNeighbors gr node =
     map (\<lambda>dir. newPathNode (node_x node + fst dir) (node_y node + snd dir) (Some node))
       (filter (\<lambda>dir. isWalkable gr (node_x node + fst dir) (node_y node + snd dir)) directions)"

text \<open>\<^verbatim>\<open>reconstructPath\<close>: follow the parents, putting each cell in front.\<close>

fun reconstructPath_loop :: "PathNode option \<Rightarrow> Position list \<Rightarrow> Position list" where
  "reconstructPath_loop None path = path"
| "reconstructPath_loop (Some (PathNode x y g h f parent)) path =
     reconstructPath_loop parent ((x, y) # path)"

definition reconstructPath :: "PathNode \<Rightarrow> Position list" where
  "reconstructPath endNode = reconstructPath_loop (Some endNode) []"

text \<open>\<^verbatim>\<open>findLowestF\<close>, called on a non-empty open set only.\<close>

function findLowestF_loop :: "PathNode list \<Rightarrow> nat \<Rightarrow> nat \<Rightarrow> int \<Rightarrow> nat" where
  "findLowestF_loop openSet i lowestIndex lowestF =
     (if i < length openSet then
        (if node_f (openSet ! i) < lowestF
         then findLowestF_loop openSet (i + 1) i (node_f (openSet ! i))
         else if node_f (openSet ! i) = lowestF \<and> node_h (openSet ! i) < node_h (openSet ! lowestIndex)
         then findLowestF_loop openSet (i + 1) i lowestF
         else findLowestF_loop openSet (i + 1) lowestIndex lowestF)
      else lowestIndex)"
  by pat_completeness auto
termination
  by (relation "measure (\<lambda>(openSet, i, lowestIndex, lowestF). length openSet - i)") auto

definition findLowestF :: "PathNode list \<Rightarrow> nat" where
  "findLowestF openSet = findLowestF_loop openSet 1 0 (node_f (openSet ! 0))"

text \<open>\<^verbatim>\<open>Array.prototype.findIndex\<close>, with \<open>None\<close> for -1.\<close>

fun findIndex :: "('a \<Rightarrow> bool) \<Rightarrow> 'a list \<Rightarrow> nat option" where
  "findIndex P [] = None"
| "findIndex P (x # xs) = (if P x then Some 0 else map_option Suc (findIndex P xs))"

text \<open>
  The body of \<^verbatim>\<open>for (const neighbor of neighbors)\<close>. The closed set holds the keys
  \<^verbatim>\<open>`${x},${y}`\<close>, which determine the cell, so it is a set of positions.
\<close>

fun exploreNeighbors ::
  "Position \<Rightarrow> PathNode \<Rightarrow> Position set \<Rightarrow> PathNode list \<Rightarrow> PathNode list \<Rightarrow> PathNode list" where
  "exploreNeighbors endPos current closedSet [] openSet = openSet"
| "exploreNeighbors endPos current closedSet (neighbor # rest) openSet =
     (if (node_x neighbor, node_y neighbor) \<in> closedSet
      then exploreNeighbors endPos current closedSet rest openSet
      else
        let tentativeG = node_g current + 1 in
        (case findIndex (\<lambda>n. node_x n = node_x neighbor \<and> node_y n = node_y neighbor) openSet of
           None \<Rightarrow>
             let hh = heuristic (node_x neighbor, node_y neighbor) endPos in
             exploreNeighbors endPos current closedSet rest
               (openSet @
                  [PathNode (node_x neighbor) (node_y neighbor) tentativeG hh (tentativeG + hh)
                     (Some current)])
         | Some existingIndex \<Rightarrow>
             let existing = openSet ! existingIndex in
             if tentativeG < node_g existing
             then exploreNeighbors endPos current closedSet rest
                    (openSet[existingIndex :=
                       PathNode (node_x existing) (node_y existing) tentativeG (node_h existing)
                         (tentativeG + node_h existing) (Some current)])
             else exploreNeighbors endPos current closedSet rest openSet))"

text \<open>The \<^verbatim>\<open>while (openSet.length > 0)\<close> loop of \<^verbatim>\<open>findPath\<close>.\<close>

function astar_loop :: "Grid \<Rightarrow> Position \<Rightarrow> PathNode list \<Rightarrow> Position set \<Rightarrow> Position list" where
  "astar_loop gr endPos openSet closedSet =
     (if openSet = [] then []
      else
        let currentIndex = findLowestF openSet;
            current = openSet ! currentIndex
        in
        if node_x current = fst endPos \<and> node_y current = snd endPos then reconstructPath current
        else
          let openSet1 = take currentIndex openSet @ drop (currentIndex + 1) openSet;
              closedSet1 = insert (node_x current, node_y current) closedSet;
              neighbors = getNeighbors gr current
          in astar_loop gr endPos
               (exploreNeighbors endPos current closedSet1 neighbors openSet1) closedSet1)"
  by pat_completeness auto

definition findPath :: "Grid \<Rightarrow> Position \<Rightarrow> Position \<Rightarrow> Position list" where
  "findPath gr start endPos =
     (if \<not> isWalkable gr (fst start) (snd start) \<or> \<not> isWalkable gr (fst endPos) (snd endPos)
      then []
      else
        let hh = heuristic start endPos
        in astar_loop gr endPos [PathNode (fst start) (snd start) 0 hh (0 + hh) None] {})"

definition getPathLength :: "Grid \<Rightarrow> Position \<Rightarrow> Position \<Rightarrow> int" where
  "getPathLength gr start endPos =
     (let path = findPath gr start endPos
      in if length path > 0 then int (length path) - 1 else -1)"

definition hasPath :: "Grid \<Rightarrow> Position \<Rightarrow> Position \<Rightarrow> bool" where
  "hasPath gr start endPos = (length (findPath gr start endPos) > 0)"

text \<open>
  What the contract of \<^verbatim>\<open>findPath\<close> speaks of: a route is a non-empty sequence of
  walkable cells in which each cell is one cardinal step from the one before.
\<close>

fun walkPath :: "Grid \<Rightarrow> Position list \<Rightarrow> bool" where
  "walkPath gr [] = False"
| "walkPath gr [a] = isWalkable gr (fst a) (snd a)"
| "walkPath gr (a # b # rest) =
     (isWalkable gr (fst a) (snd a) \<and> isValidMove a b \<and> walkPath gr (b # rest))"

definition route :: "Grid \<Rightarrow> Position \<Rightarrow> Position \<Rightarrow> Position list \<Rightarrow> bool" where
  "route gr start endPos path = (walkPath gr path \<and> hd path = start \<and> last path = endPos)"

section \<open>collisionService\<close>

definition COLLISION_PENALTY_SECONDS :: int where
  "COLLISION_PENALTY_SECONDS = 10"

definition getPenaltySeconds :: int where
  "getPenaltySeconds = COLLISION_PENALTY_SECONDS"

text \<open>The errors the engine throws.\<close>

datatype error =
    GameStateNotFound
  | BotNotActive
  | AlreadyFinished
  | InvalidMove
  | OutOfBounds
  | GameNotFound
  | NotParticipant
  | TypeError
  | RangeError

text \<open>
  \<^verbatim>\<open>checkObstacleCollision\<close> compares the coordinates with numbers and then reads
  \<^verbatim>\<open>grid[position.y][position.x]\<close>. With a key \<^verbatim>\<open>position.y\<close> that names no row,
  \<^verbatim>\<open>grid[position.y]\<close> is \<^verbatim>\<open>undefined\<close> and reading a property of it throws a
  \<^verbatim>\<open>TypeError\<close>; with a key \<^verbatim>\<open>position.x\<close> that names no element the cell reads
  \<^verbatim>\<open>undefined\<close>, which is not 1.
\<close>

definition checkObstacleCollision :: "Grid \<Rightarrow> RawPosition \<Rightarrow> error + bool" where
  "checkObstacleCollision gr p =
     (let x = toNumber (fst p); y = toNumber (snd p)
      in if y < 0 \<or> int (length gr) \<le> y then Inr False
         else if x < 0 \<or> int (length (gr ! 0)) \<le> x then Inr False
         else if \<not> canonical (snd p) then Inl TypeError
         else if \<not> canonical (fst p) then Inr False
         else Inr (cell gr x y = Some 1))"

text \<open>\<open>gridSize\<close> is the pair \<open>(rows, cols)\<close>. The function only compares the coordinates
  with numbers, so it is given the numbers they are read as.\<close>

definition checkBoundaryCollision :: "Position \<Rightarrow> int \<times> int \<Rightarrow> bool" where
  "checkBoundaryCollision p gridSize =
     (fst p < 0 \<or> snd gridSize \<le> fst p \<or> snd p < 0 \<or> fst gridSize \<le> snd p)"

text \<open>The comparison of the positions is \<^verbatim>\<open>===\<close> on both coordinates.\<close>

fun checkBotCollision ::
  "(string \<times> RawPosition) list \<Rightarrow> string \<Rightarrow> RawPosition \<Rightarrow> string option" where
  "checkBotCollision [] b newPosition = None"
| "checkBotCollision (bp # rest) b newPosition =
     (if fst bp \<noteq> b \<and> snd bp = newPosition then Some (fst bp)
      else checkBotCollision rest b newPosition)"

section \<open>The match engine's data\<close>

text \<open>
  A JavaScript \<^verbatim>\<open>Map\<close> keeps its keys in insertion order, and the order is observable
  (the blocking check reports the first blocker). A \<^verbatim>\<open>Map\<close> is therefore an association
  list: \<^verbatim>\<open>get\<close> is \<open>map_of\<close>, \<^verbatim>\<open>has\<close> is \<open>map_of \<dots> \<noteq> None\<close> and
  \<^verbatim>\<open>set\<close> is \<open>AList.update\<close>, which overwrites in place or appends.
\<close>

record GameState =
  grid :: Grid
  botPositions :: "(string \<times> RawPosition) list"
  endPosition :: Position
  startTime :: int
  moveCounters :: "(string \<times> int) list"
  botFinishTimes :: "(string \<times> int) list"

text \<open>The rows of the tables \<^verbatim>\<open>BotGame\<close>, \<^verbatim>\<open>Move\<close>, \<^verbatim>\<open>Arena\<close> and \<^verbatim>\<open>Game\<close>
  (the columns the engine reads or writes). \<open>bg_id\<close> is the primary key \<^verbatim>\<open>BotGame.id\<close>.\<close>

record BotGame =
  bg_id :: string
  botId :: string
  gameId :: string
  position :: int
  completionTime :: "int option"
  collisions :: int
  level1Time :: "int option"
  level2Time :: "int option"
  level3Time :: "int option"
  eliminated :: bool
  eliminatedAt :: "int option"

record Move =
  mv_gameId :: string
  mv_botId :: string
  mv_level :: int
  fromX :: coord
  fromY :: coord
  toX :: coord
  toY :: coord
  moveNumber :: int
  isCollision :: bool

record Arena =
  gridRows :: int
  gridCols :: int
  obstacleCount :: int
  timeLimit :: int

record Game =
  game_id :: string
  currentLevel :: int
  prizePool :: rat
  arena :: Arena

record GameWithRelations = Game +
  participants :: "BotGame list"

text \<open>
  The world the engine acts on: the in-memory registry \<^verbatim>\<open>activeGames\<close> and the three
  tables reached through prisma. Every operation takes the world and returns the new one;
  a thrown error is \<open>Inl\<close>, returned together with the world as it stands at the throw.
\<close>

record World =
  activeGames :: "(string \<times> GameState) list"
  games :: "Game list"
  botGames :: "BotGame list"
  moves :: "Move list"

text \<open>The three shapes of object that \<^verbatim>\<open>processMove\<close> returns.\<close>

datatype MoveResult =
    Collided (penalty: int) (totalCollisions: int) (col_position: RawPosition) (col_moveNumber: int)
  | Blocked (blockedBy: string) (blk_position: RawPosition) (blk_moveNumber: int)
  | Advanced (adv_position: RawPosition) (adv_moveNumber: int) (finished: bool) (finishTime: "int option")

text \<open>\<^verbatim>\<open>GameModel.findById\<close>: the game row with its arena and its participants ordered by
  \<^verbatim>\<open>position\<close> ascending.\<close>

definition findById :: "World \<Rightarrow> string \<Rightarrow> GameWithRelations option" where
  "findById w gid =
     (case find (\<lambda>g. game_id g = gid) (games w) of
        None \<Rightarrow> None
      | Some g \<Rightarrow>
          Some (Game.extend g
            (GameWithRelations.fields (sort_key position (filter (\<lambda>r. gameId r = gid) (botGames w))))))"

text \<open>\<^verbatim>\<open>prisma.botGame.findUnique({where: {botId_gameId}})\<close>.\<close>

definition findBotGame :: "World \<Rightarrow> string \<Rightarrow> string \<Rightarrow> BotGame option" where
  "findBotGame w b gid = find (\<lambda>r. botId r = b \<and> gameId r = gid) (botGames w)"

text \<open>\<^verbatim>\<open>prisma.botGame.update({where: {id}, data})\<close>.\<close>

definition updateBotGame :: "string \<Rightarrow> (BotGame \<Rightarrow> BotGame) \<Rightarrow> World \<Rightarrow> World" where
  "updateBotGame i upd w = w\<lparr>botGames := map (\<lambda>r. if bg_id r = i then upd r else r) (botGames w)\<rparr>"

definition handleCollision :: "World \<Rightarrow> string \<Rightarrow> string \<Rightarrow> (error + int \<times> int) \<times> World" where
  "handleCollision w gid b =
     (case findBotGame w b gid of
        None \<Rightarrow> (Inl NotParticipant, w)
      | Some botGame \<Rightarrow>
          let w' = updateBotGame (bg_id botGame) (\<lambda>r. r\<lparr>collisions := collisions r + 1\<rparr>) w;
              updatedCollisions = collisions botGame + 1;
              penalty = COLLISION_PENALTY_SECONDS
          in (Inr (updatedCollisions, penalty), w'))"

definition setLevelTime :: "int \<Rightarrow> int \<Rightarrow> BotGame \<Rightarrow> BotGame" where
  "setLevelTime lvl t r =
     (if lvl = 1 then r\<lparr>level1Time := Some t\<rparr>
      else if lvl = 2 then r\<lparr>level2Time := Some t\<rparr>
      else r\<lparr>level3Time := Some t\<rparr>)"

text \<open>\<^verbatim>\<open>if (blockingBot)\<close> on a \<^verbatim>\<open>string | null\<close>: null and the empty string are falsy.\<close>

definition truthy :: "string option \<Rightarrow> bool" where
  "truthy s = (case s of None \<Rightarrow> False | Some t \<Rightarrow> t \<noteq> [])"

text \<open>\<^verbatim>\<open>(gameState.moveCounters.get(botId) || 0) + 1\<close>.\<close>

definition nextMoveNumber :: "GameState \<Rightarrow> string \<Rightarrow> int" where
  "nextMoveNumber gs b = (case map_of (moveCounters gs) b of None \<Rightarrow> 0 | Some c \<Rightarrow> c) + 1"

text \<open>
  \<^verbatim>\<open>processMove(gameId, botId, {toX, toY})\<close>; \<open>now\<close> is what \<^verbatim>\<open>Date.now()\<close> returns
  during the call. The game state object is mutated in place in the source, so each
  mutation rewrites the entry of \<open>activeGames\<close>. \<^verbatim>\<open>isValidMove\<close> subtracts the
  coordinates and \<^verbatim>\<open>checkBoundaryCollision\<close> compares them with numbers, so both are
  given the numbers the coordinates are read as; the blocking check, the position map, the
  move record and the test for the goal cell get the coordinates as they were submitted.
  The table \<open>moves\<close> holds the rows handed to \<^verbatim>\<open>prisma.move.create\<close>.
\<close>

definition processMove ::
  "World \<Rightarrow> int \<Rightarrow> string \<Rightarrow> string \<Rightarrow> RawPosition \<Rightarrow> (error + MoveResult) \<times> World" where
  "processMove w now gid b newPosition =
     (case map_of (activeGames w) gid of
        None \<Rightarrow> (Inl GameStateNotFound, w)
      | Some gs \<Rightarrow>
     (case map_of (botPositions gs) b of
        None \<Rightarrow> (Inl BotNotActive, w)
      | Some currentPosition \<Rightarrow>
     if map_of (botFinishTimes gs) b \<noteq> None then (Inl AlreadyFinished, w)
     else if \<not> isValidMove (numbers currentPosition) (numbers newPosition) then (Inl InvalidMove, w)
     else
     (case grid gs of
        [] \<Rightarrow> (Inl TypeError, w)
      | row0 # _ \<Rightarrow>
     if checkBoundaryCollision (numbers newPosition) (int (length (grid gs)), int (length row0))
     then (Inl OutOfBounds, w)
     else
     (case findById w gid of
        None \<Rightarrow> (Inl GameNotFound, w)
      | Some game \<Rightarrow>
     let mvNumber = nextMoveNumber gs b;
         gs1 = gs\<lparr>moveCounters := AList.update b mvNumber (moveCounters gs)\<rparr>;
         w1 = w\<lparr>activeGames := AList.update gid gs1 (activeGames w)\<rparr>
     in
     (case checkObstacleCollision (grid gs1) newPosition of
        Inl e \<Rightarrow> (Inl e, w1)
      | Inr obstacle \<Rightarrow>
     if obstacle then
       (case handleCollision w1 gid b of
          (Inl e, w2) \<Rightarrow> (Inl e, w2)
        | (Inr collisionResult, w2) \<Rightarrow>
            (Inr (Collided (snd collisionResult) (fst collisionResult) currentPosition mvNumber),
             w2\<lparr>moves := moves w2 @
               [\<lparr>mv_gameId = gid, mv_botId = b, mv_level = currentLevel game,
                 fromX = fst currentPosition, fromY = snd currentPosition,
                 toX = fst newPosition, toY = snd newPosition,
                 moveNumber = mvNumber, isCollision = True\<rparr>]\<rparr>))
     else
     (let blockingBot =
            checkBotCollision
              (filter (\<lambda>e. map_of (botFinishTimes gs1) (fst e) = None) (botPositions gs1))
              b newPosition
      in
      if truthy blockingBot then (Inr (Blocked (the blockingBot) currentPosition mvNumber), w1)
      else
      let gs2 = gs1\<lparr>botPositions := AList.update b newPosition (botPositions gs1)\<rparr>;
          w2 = w1\<lparr>activeGames := AList.update gid gs2 (activeGames w1),
                  moves := moves w1 @
                    [\<lparr>mv_gameId = gid, mv_botId = b, mv_level = currentLevel game,
                      fromX = fst currentPosition, fromY = snd currentPosition,
                      toX = fst newPosition, toY = snd newPosition,
                      moveNumber = mvNumber, isCollision = False\<rparr>]\<rparr>
      in
      if fst newPosition = Num (fst (endPosition gs2)) \<and> snd newPosition = Num (snd (endPosition gs2)) then
        let finishT = now - startTime gs2;
            gs3 = gs2\<lparr>botFinishTimes := AList.update b finishT (botFinishTimes gs2)\<rparr>;
            w3 = w2\<lparr>activeGames := AList.update gid gs3 (activeGames w2)\<rparr>;
            w4 = (case findBotGame w3 b gid of
                    None \<Rightarrow> w3
                  | Some botGame \<Rightarrow>
                      updateBotGame (bg_id botGame) (setLevelTime (currentLevel game) finishT) w3)
        in (Inr (Advanced newPosition mvNumber True (map_of (botFinishTimes gs3) b)), w4)
      else (Inr (Advanced newPosition mvNumber False None), w2)))))))"

text \<open>
  \<^verbatim>\<open>generateGrid\<close>. \<^verbatim>\<open>Math.random()\<close> is an oracle \<open>rnd\<close>: its \<open>i\<close>-th call returns
  \<open>rnd i\<close>, a rational standing for the double, and \<open>k\<close> counts the calls made so far
  (each attempt makes two, for \<open>x\<close> and then for \<open>y\<close>).

  \<open>setCell gr x y v\<close> is the assignment \<^verbatim>\<open>grid[y][x] = v\<close> for a row \<open>y\<close> that exists:
  it overwrites an element, appends when \<open>x\<close> is the row's length, and changes no
  element when \<open>x\<close> is negative (JavaScript then sets a property that is not an
  element). \<^verbatim>\<open>generateGrid\<close> writes only to (0,0), to (cols-1, rows-1) and to a cell it
  has just read as 0, so it never writes beyond a row's length.
\<close>

definition setCell :: "Grid \<Rightarrow> int \<Rightarrow> int \<Rightarrow> int \<Rightarrow> Grid" where
  "setCell gr x y v =
     (let row = gr ! nat y
      in gr[nat y :=
           (if 0 \<le> x \<and> nat x < length row then row[nat x := v]
            else if x = int (length row) then row @ [v]
            else row)])"

text \<open>
  The \<^verbatim>\<open>while (placed < obstacleCount && attempts < maxAttempts)\<close> loop. A row index outside
  the grid makes \<^verbatim>\<open>grid[y][x]\<close> throw a TypeError; a column index outside the row reads
  \<^verbatim>\<open>undefined\<close>, which is not 0. The loop's result is the grid with the final values of
  \<open>placed\<close>, \<open>attempts\<close> and the call counter.
\<close>

function generateGrid_loop ::
  "(nat \<Rightarrow> rat) \<Rightarrow> int \<Rightarrow> int \<Rightarrow> int \<Rightarrow> int \<Rightarrow> Grid \<Rightarrow> int \<Rightarrow> int \<Rightarrow> nat \<Rightarrow>
     error + Grid \<times> int \<times> int \<times> nat" where
  "generateGrid_loop rnd rows cols obstacleCnt maxAttempts gr placed attempts k =
     (if placed < obstacleCnt \<and> attempts < maxAttempts then
        let x = \<lfloor>rnd k * of_int cols\<rfloor>;
            y = \<lfloor>rnd (k + 1) * of_int rows\<rfloor>
        in
        if y < 0 \<or> int (length gr) \<le> y then Inl TypeError
        else if cell gr x y \<noteq> Some 0
        then generateGrid_loop rnd rows cols obstacleCnt maxAttempts gr placed (attempts + 1) (k + 2)
        else if (x \<le> 1 \<and> y \<le> 1) \<or> (cols - 2 \<le> x \<and> rows - 2 \<le> y)
        then generateGrid_loop rnd rows cols obstacleCnt maxAttempts gr placed (attempts + 1) (k + 2)
        else
          let gr1 = setCell gr x y 1 in
          if hasPath gr1 (0, 0) (cols - 1, rows - 1)
          then generateGrid_loop rnd rows cols obstacleCnt maxAttempts gr1 (placed + 1)
                 (attempts + 1) (k + 2)
          else generateGrid_loop rnd rows cols obstacleCnt maxAttempts (setCell gr1 x y 0) placed
                 (attempts + 1) (k + 2)
      else Inr (gr, placed, attempts, k))"
  by pat_completeness auto
termination
  by (relation "measure (\<lambda>(rnd, rows, cols, obstacleCnt, maxAttempts, gr, placed, attempts, k).
        nat (maxAttempts - attempts))") auto

text \<open>The empty grid with the start and end marks. Without a row \<^verbatim>\<open>grid[0][0] = 2\<close> throws a
  TypeError, and \<^verbatim>\<open>Array(cols)\<close> with a negative length throws a RangeError.\<close>

definition initialGrid :: "int \<Rightarrow> int \<Rightarrow> Grid" where
  "initialGrid rows cols =
     (let grid0 = replicate (nat rows) (replicate (nat cols) 0);
          grid1 = setCell grid0 0 0 2
      in setCell grid1 (cols - 1) (rows - 1) 3)"

definition generateGrid ::
  "(nat \<Rightarrow> rat) \<Rightarrow> int \<Rightarrow> int \<Rightarrow> int \<Rightarrow> nat \<Rightarrow> error + Grid \<times> nat" where
  "generateGrid rnd rows cols obstacleCnt k =
     (if rows \<le> 0 then Inl TypeError
      else if cols < 0 then Inl RangeError
      else
        let maxAttempts = obstacleCnt * 10
        in case generateGrid_loop rnd rows cols obstacleCnt maxAttempts (initialGrid rows cols) 0 0 k of
             Inl e \<Rightarrow> Inl e
           | Inr (gr, placed, attempts, k') \<Rightarrow> Inr (gr, k'))"

text \<open>What \<^verbatim>\<open>startLevel\<close> returns.\<close>

record LevelData =
  ld_grid :: Grid
  ld_endPosition :: Position
  ld_botPositions :: "(string \<times> RawPosition) list"
  ld_level :: int
  ld_timeLimit :: int

text \<open>\<^verbatim>\<open>GameModel.updateStatus(gameId, statusMap[level], level)\<close>, as far as the columns of
  \<open>Game\<close> go that the model has.\<close>

definition updateStatus :: "string \<Rightarrow> int \<Rightarrow> World \<Rightarrow> World" where
  "updateStatus gid lvl w =
     w\<lparr>games := map (\<lambda>g. if game_id g = gid then g\<lparr>currentLevel := lvl\<rparr> else g) (games w)\<rparr>"

text \<open>The round state \<^verbatim>\<open>startLevel\<close> builds: every active participant on (0,0) with
  move counter 0, no finish times.\<close>

definition freshState :: "Grid \<Rightarrow> Position \<Rightarrow> int \<Rightarrow> BotGame list \<Rightarrow> GameState" where
  "freshState gr endPos now activeParticipants =
     \<lparr>grid = gr,
      botPositions = foldl (\<lambda>m p. AList.update (botId p) (Num 0, Num 0) m) [] activeParticipants,
      endPosition = endPos,
      startTime = now,
      moveCounters = foldl (\<lambda>m p. AList.update (botId p) 0 m) [] activeParticipants,
      botFinishTimes = []\<rparr>"

text \<open>
  \<^verbatim>\<open>startLevel(gameId, level)\<close>. When the generated grid has no path the source calls
  itself again; nothing bounds the number of retries, so the function is partial and
  \<open>None\<close> stands for a call that never returns. \<open>now\<close> is the value of
  \<^verbatim>\<open>Date.now()\<close> when the state is built. The obstacle count of the level is a product
  of doubles in the source and is computed over the rationals here.
\<close>

partial_function (option) startLevel ::
  "World \<Rightarrow> (nat \<Rightarrow> rat) \<Rightarrow> nat \<Rightarrow> int \<Rightarrow> string \<Rightarrow> int \<Rightarrow> ((error + LevelData) \<times> World \<times> nat) option" where
  "startLevel w rnd k now gid lvl =
     (case findById w gid of
        None \<Rightarrow> Some (Inl GameNotFound, w, k)
      | Some game \<Rightarrow>
          let ar = arena game;
              levelObstacleCount =
                \<lfloor>of_int (obstacleCount ar) * (1 + (of_int lvl - 1) * (3 / 10) :: rat)\<rfloor>
          in
          (case generateGrid rnd (gridRows ar) (gridCols ar) levelObstacleCount k of
             Inl e \<Rightarrow> Some (Inl e, w, k)
           | Inr (gr, k') \<Rightarrow>
               let endPos = (gridCols ar - 1, gridRows ar - 1);
                   path = findPath gr (0, 0) endPos
               in
               if length path = 0 then startLevel w rnd k' now gid lvl
               else
                 let activeParticipants = filter (\<lambda>p. \<not> eliminated p) (participants game);
                     gs = freshState gr endPos now activeParticipants;
                     w1 = w\<lparr>activeGames := AList.update gid gs (activeGames w)\<rparr>;
                     w2 = updateStatus gid lvl w1
                 in Some (Inr \<lparr>ld_grid = gr, ld_endPosition = endPos,
                               ld_botPositions = botPositions gs, ld_level = lvl,
                               ld_timeLimit = timeLimit ar\<rparr>, w2, k')))"

text \<open>The worlds reached by starting a level of game \<open>gid\<close> and then processing any moves
  whose destinations are among those that \<open>sent\<close> admits.\<close>

inductive reachable :: "(RawPosition \<Rightarrow> bool) \<Rightarrow> string \<Rightarrow> World \<Rightarrow> bool"
  for sent :: "RawPosition \<Rightarrow> bool" and gid :: string where
  started: "startLevel w0 rnd k now gid lvl = Some (Inr d, w, k') \<Longrightarrow> reachable sent gid w"
| moved: "reachable sent gid w \<Longrightarrow> sent p \<Longrightarrow> processMove w now g b p = (r, w') \<Longrightarrow>
          reachable sent gid w'"

text \<open>
  \<^verbatim>\<open>checkLevelComplete(gameId)\<close>. \<open>now\<close> is the value of \<^verbatim>\<open>Date.now()\<close>. The round
  state is an object shared with the registry, so the finish times written on timeout are
  written to the registry's entry.
\<close>

definition checkLevelComplete :: "World \<Rightarrow> int \<Rightarrow> string \<Rightarrow> bool \<times> World" where
  "checkLevelComplete w now gid =
     (case map_of (activeGames w) gid of
        None \<Rightarrow> (False, w)
      | Some gs \<Rightarrow>
          (case findById w gid of
             None \<Rightarrow> (False, w)
           | Some game \<Rightarrow>
               let activeParticipants = filter (\<lambda>p. \<not> eliminated p) (participants game);
                   allFinished =
                     list_all (\<lambda>p. map_of (botFinishTimes gs) (botId p) \<noteq> None) activeParticipants;
                   elapsedMs = now - startTime gs;
                   timeLimitMs = timeLimit (arena game) * 1000;
                   timedOut = (elapsedMs \<ge> timeLimitMs)
               in
               if allFinished \<or> timedOut then
                 if timedOut then
                   let times = foldl (\<lambda>m p. if map_of m (botId p) = None
                                               then AList.update (botId p) (timeLimitMs + 999999) m
                                               else m)
                                 (botFinishTimes gs) activeParticipants
                   in (True, w\<lparr>activeGames :=
                                 AList.update gid (gs\<lparr>botFinishTimes := times\<rparr>) (activeGames w)\<rparr>)
                 else (True, w)
               else (False, w)))"

text \<open>
  The values \<^verbatim>\<open>totalTime\<close> takes: an integer number of milliseconds or \<^verbatim>\<open>Infinity\<close>.
  The order is that of JavaScript numbers.
\<close>

datatype jsnum = Finite int | Infinity

instantiation jsnum :: linorder
begin

fun less_eq_jsnum :: "jsnum \<Rightarrow> jsnum \<Rightarrow> bool" where
  "less_eq_jsnum (Finite a) (Finite b) = (a \<le> b)"
| "less_eq_jsnum (Finite a) Infinity = True"
| "less_eq_jsnum Infinity (Finite b) = False"
| "less_eq_jsnum Infinity Infinity = True"

definition less_jsnum :: "jsnum \<Rightarrow> jsnum \<Rightarrow> bool" where
  "less_jsnum a b = (a \<le> b \<and> \<not> b \<le> a)"

instance
proof
  fix x y z :: jsnum
  show "(x < y) = (x \<le> y \<and> \<not> y \<le> x)" by (simp add: less_jsnum_def)
  show "x \<le> x" by (cases x) simp_all
  show "x \<le> y \<Longrightarrow> y \<le> z \<Longrightarrow> x \<le> z" by (cases x; cases y; cases z) simp_all
  show "x \<le> y \<Longrightarrow> y \<le> x \<Longrightarrow> x = y" by (cases x; cases y) simp_all
  show "x \<le> y \<or> y \<le> x" by (cases x; cases y) auto
qed

end

text \<open>\<^verbatim>\<open>finishTime + penaltyMs\<close>.\<close>

fun addMs :: "jsnum \<Rightarrow> int \<Rightarrow> jsnum" where
  "addMs (Finite t) ms = Finite (t + ms)"
| "addMs Infinity ms = Infinity"

text \<open>\<^verbatim>\<open>ELIMINATION_MAP\<close>.\<close>

definition ELIMINATION_MAP :: "(int \<times> int) list" where
  "ELIMINATION_MAP = [(1, 2), (2, 4), (3, 3)]"

text \<open>The entries of \<^verbatim>\<open>rankings\<close> and the object \<^verbatim>\<open>eliminateBots\<close> returns.\<close>

record Ranking =
  rk_botId :: string
  botGameId :: string
  totalTime :: jsnum
  rk_collisions :: int

record Elimination =
  res_qualified :: "string list"
  res_eliminated :: "string list"
  res_rankings :: "Ranking list"

text \<open>
  \<^verbatim>\<open>Array.prototype.slice(start, end)\<close>: a negative index counts from the end of the
  array, and both indices are clamped to the array. \<open>None\<close> is an omitted \<^verbatim>\<open>end\<close>.
\<close>

definition relativeIndex :: "int \<Rightarrow> nat \<Rightarrow> nat" where
  "relativeIndex i len = (if i < 0 then nat (max (int len + i) 0) else min (nat i) len)"

definition slice :: "'a list \<Rightarrow> int \<Rightarrow> int option \<Rightarrow> 'a list" where
  "slice xs start fin =
     (let len = length xs;
          k = relativeIndex start len;
          final = (case fin of None \<Rightarrow> len | Some e \<Rightarrow> relativeIndex e len)
      in take (final - k) (drop k xs))"

text \<open>
  The entry of \<^verbatim>\<open>rankings\<close> for participant \<open>p\<close>.
  \<^verbatim>\<open>botFinishTimes.get(p.botId) || Infinity\<close> is \<^verbatim>\<open>Infinity\<close> when there is no finish time
  and also when the finish time is 0.
\<close>

definition ranking :: "GameState \<Rightarrow> BotGame \<Rightarrow> Ranking" where
  "ranking gs p =
     (let finishTime = (case map_of (botFinishTimes gs) (botId p) of
                          None \<Rightarrow> Infinity
                        | Some t \<Rightarrow> if t = 0 then Infinity else Finite t);
          penaltyMs = collisions p * getPenaltySeconds * 1000
      in \<lparr>rk_botId = botId p, botGameId = bg_id p,
          totalTime = addMs finishTime penaltyMs, rk_collisions = collisions p\<rparr>)"

text \<open>
  \<^verbatim>\<open>eliminateBots(gameId, level)\<close>. \<^verbatim>\<open>Array.prototype.sort\<close> is stable, and a comparator
  result \<^verbatim>\<open>NaN\<close> (the difference of two infinite times) counts as 0, so
  \<^verbatim>\<open>rankings.sort((a, b) => a.totalTime - b.totalTime)\<close> is the stable sort by
  \<^verbatim>\<open>totalTime\<close>, infinite times last.
\<close>

definition eliminateBots :: "World \<Rightarrow> string \<Rightarrow> int \<Rightarrow> (error + Elimination) \<times> World" where
  "eliminateBots w gid lvl =
     (case map_of (activeGames w) gid of
        None \<Rightarrow> (Inl GameStateNotFound, w)
      | Some gs \<Rightarrow>
          (case findById w gid of
             None \<Rightarrow> (Inl GameNotFound, w)
           | Some game \<Rightarrow>
               let activeParticipants = filter (\<lambda>p. \<not> eliminated p) (participants game);
                   eliminationCount = (case map_of ELIMINATION_MAP lvl of None \<Rightarrow> 0 | Some c \<Rightarrow> c);
                   rankings = sort_key totalTime (map (ranking gs) activeParticipants);
                   qualifiedCount = int (length rankings) - eliminationCount;
                   qualified = slice rankings 0 (Some qualifiedCount);
                   eliminatedBots = slice rankings qualifiedCount None;
                   w1 = foldl (\<lambda>w' bot. updateBotGame (botGameId bot)
                                 (\<lambda>r. r\<lparr>eliminated := True, eliminatedAt := Some lvl\<rparr>) w')
                          w eliminatedBots;
                   w2 = foldl (\<lambda>w' iq. updateBotGame (botGameId (snd iq))
                                 (\<lambda>r. r\<lparr>position := int (fst iq) + 1\<rparr>) w')
                          w1 (enumerate 0 qualified)
               in (Inr \<lparr>res_qualified = map rk_botId qualified,
                         res_eliminated = map rk_botId eliminatedBots,
                         res_rankings = rankings\<rparr>, w2)))"

section \<open>Notions used in the proofs\<close>

text \<open>
  None of these is part of the program. \<open>cells\<close> is the set of walkable cells, \<open>chain\<close>
  is the path a node's parents spell out, \<open>astar_measure\<close> is the quantity that decreases
  with every iteration of the search loop, \<open>newNode\<close>, \<open>updNode\<close> and \<open>exploreStep\<close>
  name the three things one pass of the neighbour loop does, and \<open>good\<close> and
  \<open>astar_inv\<close> are the invariants of a node and of the loop.
\<close>

definition cells :: "Grid \<Rightarrow> Position set" where
  "cells gr = {p. isWalkable gr (fst p) (snd p)}"

fun chain :: "PathNode \<Rightarrow> Position list" where
  "chain (PathNode x y g h f parent) =
     (case parent of None \<Rightarrow> [(x, y)] | Some p \<Rightarrow> chain p @ [(x, y)])"

definition astar_measure :: "Grid \<Rightarrow> PathNode list \<Rightarrow> Position set \<Rightarrow> nat" where
  "astar_measure gr openSet closedSet =
     length openSet + 2 * card (cells gr - closedSet - nodePos ` set openSet)"

definition newNode :: "Position \<Rightarrow> PathNode \<Rightarrow> PathNode \<Rightarrow> PathNode" where
  "newNode e cur nb =
     PathNode (node_x nb) (node_y nb) (node_g cur + 1) (heuristic (node_x nb, node_y nb) e)
       (node_g cur + 1 + heuristic (node_x nb, node_y nb) e) (Some cur)"

definition updNode :: "PathNode \<Rightarrow> PathNode \<Rightarrow> PathNode" where
  "updNode cur ex =
     PathNode (node_x ex) (node_y ex) (node_g cur + 1) (node_h ex) (node_g cur + 1 + node_h ex)
       (Some cur)"

definition exploreStep ::
  "Position \<Rightarrow> PathNode \<Rightarrow> Position set \<Rightarrow> PathNode \<Rightarrow> PathNode list \<Rightarrow> PathNode list" where
  "exploreStep e cur cs nb os =
     (if nodePos nb \<in> cs then os
      else case findIndex (\<lambda>n. node_x n = node_x nb \<and> node_y n = node_y nb) os of
             None \<Rightarrow> os @ [newNode e cur nb]
           | Some i \<Rightarrow>
               if node_g cur + 1 < node_g (os ! i) then os[i := updNode cur (os ! i)] else os)"

definition good :: "Grid \<Rightarrow> Position \<Rightarrow> Position \<Rightarrow> PathNode \<Rightarrow> bool" where
  "good gr s e n \<longleftrightarrow>
     route gr s (nodePos n) (chain n) \<and> node_g n = int (length (chain n)) - 1 \<and>
     node_h n = heuristic (nodePos n) e \<and> node_f n = node_g n + node_h n"

definition astar_inv :: "Grid \<Rightarrow> Position \<Rightarrow> Position \<Rightarrow> PathNode list \<Rightarrow> Position set \<Rightarrow> bool" where
  "astar_inv gr s e openSet cs \<longleftrightarrow>
     (\<forall>n\<in>set openSet. good gr s e n) \<and>
     distinct (map nodePos openSet) \<and>
     nodePos ` set openSet \<inter> cs = {} \<and>
     s \<in> nodePos ` set openSet \<union> cs \<and>
     (\<forall>n\<in>set openSet. nodePos n = s \<longrightarrow> node_g n = 0) \<and>
     e \<notin> cs \<and>
     (\<forall>c\<in>cs. \<forall>v. isWalkable gr (fst v) (snd v) \<and> isValidMove c v \<longrightarrow>
        v \<in> cs \<or> (\<exists>n\<in>set openSet. nodePos n = v \<and> (\<forall>q. route gr s c q \<longrightarrow> node_g n \<le> int (length q))))"

text \<open>The number of obstacle cells of a grid, and what the generation loop keeps true of
  the grid it is building for a \<open>rows\<close> by \<open>cols\<close> arena.\<close>

definition obstacles :: "Grid \<Rightarrow> nat" where
  "obstacles gr = sum_list (map (\<lambda>row. count_list row 1) gr)"

definition gridOk :: "int \<Rightarrow> int \<Rightarrow> Grid \<Rightarrow> bool" where
  "gridOk rows cols gr \<longleftrightarrow>
     length gr = nat rows \<and> (\<forall>row\<in>set gr. length row = nat cols) \<and>
     cell gr 0 0 = Some 2 \<and> cell gr (cols - 1) (rows - 1) = Some 3 \<and>
     (\<forall>x y. 0 \<le> y \<and> y < rows \<and> cell gr x y = Some 1 \<longrightarrow>
        \<not> (x \<le> 1 \<and> y \<le> 1) \<and> \<not> (cols - 2 \<le> x \<and> rows - 2 \<le> y)) \<and>
     hasPath gr (0, 0) (cols - 1, rows - 1)"


text \<open>The rows of the participants of match \<open>gid\<close> that are not eliminated.\<close>

definition survivors :: "World \<Rightarrow> string \<Rightarrow> BotGame list" where
  "survivors w gid = filter (\<lambda>r. gameId r = gid \<and> \<not> eliminated r) (botGames w)"

text \<open>The effective time of a participant with a recorded finish time: the finish time plus
  ten penalty seconds, in milliseconds, for every collision.\<close>

definition effectiveTime :: "GameState \<Rightarrow> BotGame \<Rightarrow> int" where
  "effectiveTime gs p = the (map_of (botFinishTimes gs) (botId p)) + collisions p * 10 * 1000"

section \<open>A small match used to instantiate the theorems\<close>

text \<open>A 3 by 3 grid with one obstacle in the middle; \<open>a\<close> stands on the start cell,
  \<open>b\<close> next to it, and \<open>c\<close> has finished on the goal cell.\<close>

definition demoState :: GameState where
  "demoState =
     \<lparr>grid = [[2, 0, 0], [0, 1, 0], [0, 0, 3]],
      botPositions = [(''a'', (Num 0, Num 0)), (''b'', (Num 1, Num 0)), (''c'', (Num 2, Num 2)),
                      (''d'', (Num 2, Num 1))],
      endPosition = (2, 2),
      startTime = 1000,
      moveCounters = [(''a'', 0), (''b'', 1), (''c'', 4), (''d'', 3)],
      botFinishTimes = [(''c'', 500)]\<rparr>"

definition demoRow :: "string \<Rightarrow> string \<Rightarrow> int \<Rightarrow> BotGame" where
  "demoRow i b pos =
     \<lparr>bg_id = i, botId = b, gameId = ''g1'', position = pos, completionTime = None,
      collisions = 0, level1Time = None, level2Time = None, level3Time = None,
      eliminated = False, eliminatedAt = None\<rparr>"

definition demoGame :: Game where
  "demoGame =
     \<lparr>game_id = ''g1'', currentLevel = 1, prizePool = 30,
      arena = \<lparr>gridRows = 3, gridCols = 3, obstacleCount = 1, timeLimit = 60\<rparr>\<rparr>"

definition demoWorld :: World where
  "demoWorld =
     \<lparr>activeGames = [(''g1'', demoState)],
      games = [demoGame],
      botGames = [demoRow ''r1'' ''a'' 1, demoRow ''r2'' ''b'' 2, demoRow ''r3'' ''c'' 3,
                  demoRow ''r4'' ''d'' 4],
      moves = []\<rparr>"

text \<open>The grid of the small match, and a 4 by 4 grid without obstacles.\<close>

definition grid4 :: Grid where
  "grid4 = [[0, 0, 0, 0], [0, 0, 0, 0], [0, 0, 0, 0], [0, 0, 0, 0]]"

definition grid3 :: Grid where
  "grid3 = [[2, 0, 0], [0, 1, 0], [0, 0, 3]]"

text \<open>A sequence of random draws: one half and one quarter in turn.\<close>

definition halves :: "nat \<Rightarrow> rat" where
  "halves i = (if even i then 1 / 2 else 1 / 4)"










text \<open>A match of three bots on its second level: \<open>a\<close> and \<open>b\<close> have finished, \<open>c\<close> has run
  into an obstacle twice and finished last.\<close>

definition smallState :: GameState where
  "smallState =
     \<lparr>grid = [[2, 0, 0], [0, 1, 0], [0, 0, 3]],
      botPositions = [(''a'', (Num 2, Num 2)), (''b'', (Num 2, Num 2)), (''c'', (Num 2, Num 2))],
      endPosition = (2, 2),
      startTime = 1000,
      moveCounters = [(''a'', 4), (''b'', 4), (''c'', 6)],
      botFinishTimes = [(''b'', 700), (''a'', 900), (''c'', 1200)]\<rparr>"

definition smallWorld :: World where
  "smallWorld =
     \<lparr>activeGames = [(''g1'', smallState)],
      games = [demoGame\<lparr>currentLevel := 2\<rparr>],
      botGames = [demoRow ''r1'' ''a'' 1, demoRow ''r2'' ''b'' 2,
                  (demoRow ''r3'' ''c'' 3)\<lparr>collisions := 2\<rparr>],
      moves = []\<rparr>"

text \<open>A match of ten bots at the end of its first level: every bot has a recorded finish
  time, bot \<open>b3\<close> has collided once and bot \<open>b7\<close> three times.\<close>

definition tenState :: GameState where
  "tenState =
     \<lparr>grid = [[2, 0, 0], [0, 1, 0], [0, 0, 3]],
      botPositions = map (\<lambda>b. (b, (Num 2, Num 2)))
        [''b0'', ''b1'', ''b2'', ''b3'', ''b4'', ''b5'', ''b6'', ''b7'', ''b8'', ''b9''],
      endPosition = (2, 2),
      startTime = 1000,
      moveCounters = map (\<lambda>b. (b, 4))
        [''b0'', ''b1'', ''b2'', ''b3'', ''b4'', ''b5'', ''b6'', ''b7'', ''b8'', ''b9''],
      botFinishTimes =
        [(''b4'', 4100), (''b0'', 4500), (''b9'', 5200), (''b3'', 5300), (''b1'', 6100),
         (''b2'', 6400), (''b7'', 7000), (''b8'', 7700), (''b5'', 8000), (''b6'', 9900)]\<rparr>"

definition tenWorld :: World where
  "tenWorld =
     \<lparr>activeGames = [(''g1'', tenState)],
      games = [demoGame],
      botGames =
        [demoRow ''r0'' ''b0'' 1, demoRow ''r1'' ''b1'' 2, demoRow ''r2'' ''b2'' 3,
         (demoRow ''r3'' ''b3'' 4)\<lparr>collisions := 1\<rparr>, demoRow ''r4'' ''b4'' 5,
         demoRow ''r5'' ''b5'' 6, demoRow ''r6'' ''b6'' 7,
         (demoRow ''r7'' ''b7'' 8)\<lparr>collisions := 3\<rparr>, demoRow ''r8'' ''b8'' 9,
         demoRow ''r9'' ''b9'' 10],
      moves = []\<rparr>"

text \<open>A round state in which bot \<open>a\<close> has the recorded finish time 0.\<close>

definition zeroState :: GameState where
  "zeroState =
     \<lparr>grid = [[2, 3]],
      botPositions = [(''a'', (Num 1, Num 0)), (''b'', (Num 1, Num 0)), (''c'', (Num 1, Num 0))],
      endPosition = (1, 0),
      startTime = 1000,
      moveCounters = [(''a'', 1), (''b'', 1), (''c'', 3)],
      botFinishTimes = [(''a'', 0), (''b'', 700), (''c'', 1200)]\<rparr>"

definition zeroWorld :: World where
  "zeroWorld = smallWorld\<lparr>activeGames := [(''g1'', zeroState)]\<rparr>"

section \<open>Termination and correctness of the path oracle\<close>

lemma finite_cells: "finite (cells gr)"
proof -
  have "cells gr \<subseteq> {0..<int (length (gr ! 0))} \<times> {0..<int (length gr)}"
    by (auto simp: cells_def isWalkable_def split: if_splits)
  then show ?thesis by (rule finite_subset) simp
qed

declare findLowestF_loop.simps [simp del]

lemma findLowestF_loop_spec:
  "li < length xs \<Longrightarrow> lf = node_f (xs ! li) \<Longrightarrow>
   (\<forall>j<i. j < length xs \<longrightarrow> lf \<le> node_f (xs ! j)) \<Longrightarrow>
   findLowestF_loop xs i li lf < length xs \<and>
   (\<forall>j<length xs. node_f (xs ! findLowestF_loop xs i li lf) \<le> node_f (xs ! j))"
proof (induction xs i li lf rule: findLowestF_loop.induct)
  case (1 openSet i lowestIndex lowestF)
  show ?case
  proof (cases "i < length openSet")
    case False
    with "1.prems" show ?thesis by (subst (1 2) findLowestF_loop.simps) auto
  next
    case True
    note i = this
    show ?thesis
    proof (cases "node_f (openSet ! i) < lowestF")
      case True
      have "\<forall>j<i + 1. j < length openSet \<longrightarrow> node_f (openSet ! i) \<le> node_f (openSet ! j)"
        using "1.prems"(3) True by (auto simp: less_Suc_eq)
      from "1.IH"(1) [OF i True i refl this] i True
      show ?thesis by (subst (1 2) findLowestF_loop.simps) auto
    next
      case False
      note nl = this
      show ?thesis
      proof (cases "node_f (openSet ! i) = lowestF \<and> node_h (openSet ! i) < node_h (openSet ! lowestIndex)")
        case True
        have "\<forall>j<i + 1. j < length openSet \<longrightarrow> lowestF \<le> node_f (openSet ! j)"
          using "1.prems"(3) True by (auto simp: less_Suc_eq)
        from "1.IH"(2) [OF i nl True i _ this] i nl True
        show ?thesis by (subst (1 2) findLowestF_loop.simps) auto
      next
        case False
        have "\<forall>j<i + 1. j < length openSet \<longrightarrow> lowestF \<le> node_f (openSet ! j)"
          using "1.prems"(3) nl by (auto simp: less_Suc_eq)
        from "1.IH"(3) [OF i nl False "1.prems"(1,2) this] i nl False
        show ?thesis by (subst (1 2) findLowestF_loop.simps) auto
      qed
    qed
  qed
qed

lemma findLowestF_spec:
  assumes "openSet \<noteq> []"
  shows "findLowestF openSet < length openSet"
    and "n \<in> set openSet \<Longrightarrow> node_f (openSet ! findLowestF openSet) \<le> node_f n"
proof -
  from assms have 0: "0 < length openSet" by simp
  have "\<forall>j<1. j < length openSet \<longrightarrow> node_f (openSet ! 0) \<le> node_f (openSet ! j)" by simp
  from findLowestF_loop_spec [OF 0 refl this]
  have *: "findLowestF openSet < length openSet \<and>
     (\<forall>j<length openSet. node_f (openSet ! findLowestF openSet) \<le> node_f (openSet ! j))"
    by (simp add: findLowestF_def)
  then show "findLowestF openSet < length openSet" by simp
  show "node_f (openSet ! findLowestF openSet) \<le> node_f n" if "n \<in> set openSet"
    using that * by (auto simp: in_set_conv_nth)
qed

lemma reconstructPath_loop_chain: "reconstructPath_loop (Some n) acc = chain n @ acc"
  by (induction n arbitrary: acc rule: chain.induct) (simp split: option.splits)

lemma reconstructPath_chain: "reconstructPath n = chain n"
  by (simp add: reconstructPath_def reconstructPath_loop_chain)

lemma chain_nonempty: "chain n \<noteq> []"
  by (cases n) (simp split: option.splits)

lemma last_chain: "last (chain n) = nodePos n"
  by (cases n) (simp add: nodePos_def split: option.splits)

lemma walkPath_nonempty: "walkPath gr p \<Longrightarrow> p \<noteq> []"
  by auto

lemma walkPath_Cons:
  "walkPath gr (a # p) \<longleftrightarrow>
     isWalkable gr (fst a) (snd a) \<and> (p \<noteq> [] \<longrightarrow> isValidMove a (hd p) \<and> walkPath gr p)"
  by (cases p) auto

lemma walkPath_walkable: "walkPath gr p \<Longrightarrow> c \<in> set p \<Longrightarrow> isWalkable gr (fst c) (snd c)"
  by (induction p) (auto simp: walkPath_Cons)

lemma walkPath_append:
  "xs \<noteq> [] \<Longrightarrow> ys \<noteq> [] \<Longrightarrow>
   walkPath gr (xs @ ys) \<longleftrightarrow> walkPath gr xs \<and> isValidMove (last xs) (hd ys) \<and> walkPath gr ys"
  by (induction xs) (auto simp: walkPath_Cons)

lemma heuristic_step: "isValidMove a b \<Longrightarrow> heuristic a e \<le> 1 + heuristic b e"
  by (auto simp: isValidMove_def heuristic_def Let_def)

lemma heuristic_walk:
  "walkPath gr (a # rest) \<Longrightarrow> heuristic a e \<le> int (length rest) + heuristic (last (a # rest)) e"
proof (induction rest arbitrary: a)
  case Nil
  then show ?case by simp
next
  case (Cons b rest)
  from Cons.prems have "isValidMove a b" "walkPath gr (b # rest)" by simp_all
  from heuristic_step [OF this(1), of e] Cons.IH [OF this(2)] show ?case by simp
qed

lemma findIndex_None: "findIndex P xs = None \<longleftrightarrow> (\<forall>x\<in>set xs. \<not> P x)"
  by (induction xs) auto

lemma findIndex_Some:
  "findIndex P xs = Some i \<Longrightarrow> i < length xs \<and> P (xs ! i)"
  by (induction xs arbitrary: i) (auto split: if_splits)

lemma map_nodePos_update:
  "i < length xs \<Longrightarrow> nodePos v = nodePos (xs ! i) \<Longrightarrow> map nodePos (xs[i := v]) = map nodePos xs"
  by (simp add: map_update list_update_same_conv)

lemma nodePos_simp [simp]: "nodePos (PathNode x y g h f p) = (x, y)"
  by (simp add: nodePos_def)

lemma node_eq_nodePos:
  "(node_x n = node_x m \<and> node_y n = node_y m) \<longleftrightarrow> nodePos n = nodePos m"
  by (simp add: nodePos_def)

lemma set_remove_nth:
  "i < length xs \<Longrightarrow> set xs = insert (xs ! i) (set (take i xs @ drop (Suc i) xs))"
proof -
  assume "i < length xs"
  then have "xs = take i xs @ xs ! i # drop (Suc i) xs" by (rule id_take_nth_drop)
  then have "set xs = set (take i xs @ xs ! i # drop (Suc i) xs)" by simp
  then show ?thesis by simp
qed

lemma getNeighbors_cells: "nb \<in> set (getNeighbors gr cur) \<Longrightarrow> nodePos nb \<in> cells gr"
  by (auto simp: getNeighbors_def cells_def newPathNode_def)

lemma explore_measure:
  "\<forall>nb\<in>set nbs. nodePos nb \<in> cells gr \<Longrightarrow>
   astar_measure gr (exploreNeighbors e cur cs nbs openSet) cs \<le> astar_measure gr openSet cs"
proof (induction nbs arbitrary: openSet)
  case Nil
  then show ?case by simp
next
  case (Cons nb nbs)
  from Cons.prems have rest: "\<forall>nb\<in>set nbs. nodePos nb \<in> cells gr"
    and nb: "nodePos nb \<in> cells gr" by simp_all
  note IH = Cons.IH [OF rest]
  show ?case
  proof (cases "(node_x nb, node_y nb) \<in> cs")
    case True
    with IH show ?thesis by simp
  next
    case False
    note nc = this
    show ?thesis
    proof (cases "findIndex (\<lambda>n. node_x n = node_x nb \<and> node_y n = node_y nb) openSet")
      case None
      let ?new = "PathNode (node_x nb) (node_y nb) (node_g cur + 1)
         (heuristic (node_x nb, node_y nb) e)
         (node_g cur + 1 + heuristic (node_x nb, node_y nb) e) (Some cur)"
      from None have fresh: "nodePos nb \<notin> nodePos ` set openSet"
        by (auto simp: findIndex_None node_eq_nodePos)
      let ?S = "cells gr - cs - nodePos ` set openSet"
      from nb nc fresh have inS: "nodePos nb \<in> ?S" by (simp add: nodePos_def)
      have fin: "finite ?S" using finite_cells by simp
      have "cells gr - cs - nodePos ` set (openSet @ [?new]) = ?S - {nodePos nb}"
        by (auto simp: nodePos_def)
      then have "card (cells gr - cs - nodePos ` set (openSet @ [?new])) = card ?S - 1"
        using inS fin by simp
      moreover have "card ?S \<ge> 1" using inS fin by (metis One_nat_def Suc_leI card_gt_0_iff empty_iff)
      ultimately have "astar_measure gr (openSet @ [?new]) cs \<le> astar_measure gr openSet cs"
        by (simp add: astar_measure_def)
      with IH [of "openSet @ [?new]"] None nc show ?thesis by (simp add: Let_def)
    next
      case (Some i)
      from findIndex_Some [OF Some] have i: "i < length openSet"
        and same: "nodePos (openSet ! i) = nodePos nb" by (simp_all add: node_eq_nodePos)
      let ?upd = "PathNode (node_x (openSet ! i)) (node_y (openSet ! i)) (node_g cur + 1)
         (node_h (openSet ! i)) (node_g cur + 1 + node_h (openSet ! i)) (Some cur)"
      have "map nodePos (openSet[i := ?upd]) = map nodePos openSet"
        by (rule map_nodePos_update [OF i]) (simp add: nodePos_def)
      then have "nodePos ` set (openSet[i := ?upd]) = nodePos ` set openSet"
        by (metis set_map)
      then have "astar_measure gr (openSet[i := ?upd]) cs = astar_measure gr openSet cs"
        by (simp add: astar_measure_def)
      with IH [of "openSet[i := ?upd]"] IH [of openSet] Some nc show ?thesis
        by (simp add: Let_def)
    qed
  qed
qed

lemma pop_measure:
  assumes "i < length openSet"
  shows "astar_measure gr (take i openSet @ drop (Suc i) openSet) (insert (nodePos (openSet ! i)) cs)
         < astar_measure gr openSet cs"
proof -
  let ?o1 = "take i openSet @ drop (Suc i) openSet"
  have len: "length ?o1 + 1 = length openSet" using assms by simp
  have "nodePos ` set openSet \<subseteq> insert (nodePos (openSet ! i)) (nodePos ` set ?o1)"
    using set_remove_nth [OF assms] by (metis image_insert order_refl)
  then have "cells gr - insert (nodePos (openSet ! i)) cs - nodePos ` set ?o1
      \<subseteq> cells gr - cs - nodePos ` set openSet" by auto
  then have "card (cells gr - insert (nodePos (openSet ! i)) cs - nodePos ` set ?o1)
      \<le> card (cells gr - cs - nodePos ` set openSet)"
    by (intro card_mono) (simp_all add: finite_cells)
  with len show ?thesis by (simp add: astar_measure_def)
qed

termination astar_loop
proof (relation "measure (\<lambda>(gr, endPos, openSet, closedSet). astar_measure gr openSet closedSet)")
  show "wf (measure (\<lambda>(gr, endPos, openSet, closedSet). astar_measure gr openSet closedSet))"
    by simp
next
  fix gr :: Grid and endPos :: Position and openSet closedSet x xa xb xc xd
  assume ne: "openSet \<noteq> []" and x: "x = findLowestF openSet" and xa: "xa = openSet ! x"
    and xb: "xb = take x openSet @ drop (x + 1) openSet"
    and xc: "xc = insert (node_x xa, node_y xa) closedSet"
    and xd: "xd = getNeighbors gr xa"
  from findLowestF_spec(1) [OF ne] x have i: "x < length openSet" by simp
  have "astar_measure gr (exploreNeighbors endPos xa xc xd xb) xc \<le> astar_measure gr xb xc"
    by (rule explore_measure) (simp add: xd getNeighbors_cells)
  also have "\<dots> < astar_measure gr openSet closedSet"
    using pop_measure [OF i, of gr closedSet] by (simp add: xb xc xa nodePos_def)
  finally show "((gr, endPos, exploreNeighbors endPos xa xc xd xb, xc), gr, endPos, openSet, closedSet)
       \<in> measure (\<lambda>(gr, endPos, openSet, closedSet). astar_measure gr openSet closedSet)"
    by simp
qed

declare astar_loop.simps [simp del]

lemma explore_Cons:
  "exploreNeighbors e cur cs (nb # nbs) os = exploreNeighbors e cur cs nbs (exploreStep e cur cs nb os)"
  by (simp add: exploreStep_def Let_def newNode_def updNode_def nodePos_def split: option.splits)

lemma exploreStep_cases:
  obtains (skip) "exploreStep e cur cs nb os = os"
  | (new) "nodePos nb \<notin> cs" "nodePos nb \<notin> nodePos ` set os"
      "exploreStep e cur cs nb os = os @ [newNode e cur nb]"
  | (upd) i where "nodePos nb \<notin> cs" "i < length os" "nodePos (os ! i) = nodePos nb"
      "node_g cur + 1 < node_g (os ! i)" "exploreStep e cur cs nb os = os[i := updNode cur (os ! i)]"
proof (cases "nodePos nb \<in> cs")
  case True
  then show ?thesis using skip by (simp add: exploreStep_def)
next
  case False
  note nc = this
  show ?thesis
  proof (cases "findIndex (\<lambda>n. node_x n = node_x nb \<and> node_y n = node_y nb) os")
    case None
    then have "nodePos nb \<notin> nodePos ` set os"
      by (auto simp: findIndex_None node_eq_nodePos)
    with nc None show ?thesis using new by (simp add: exploreStep_def)
  next
    case (Some i)
    from findIndex_Some [OF Some] have i: "i < length os"
      and same: "nodePos (os ! i) = nodePos nb" by (simp_all add: node_eq_nodePos)
    show ?thesis
    proof (cases "node_g cur + 1 < node_g (os ! i)")
      case True
      with nc Some i same show ?thesis using upd [of i] by (simp add: exploreStep_def)
    next
      case False
      with nc Some show ?thesis using skip by (simp add: exploreStep_def)
    qed
  qed
qed

lemma explore_rule:
  assumes "P openSet"
    and new: "\<And>os nb. P os \<Longrightarrow> nb \<in> set nbs \<Longrightarrow> nodePos nb \<notin> cs \<Longrightarrow>
           nodePos nb \<notin> nodePos ` set os \<Longrightarrow> P (os @ [newNode e cur nb])"
    and upd: "\<And>os nb i. P os \<Longrightarrow> nb \<in> set nbs \<Longrightarrow> nodePos nb \<notin> cs \<Longrightarrow> i < length os \<Longrightarrow>
           nodePos (os ! i) = nodePos nb \<Longrightarrow> node_g cur + 1 < node_g (os ! i) \<Longrightarrow>
           P (os[i := updNode cur (os ! i)])"
  shows "P (exploreNeighbors e cur cs nbs openSet)"
proof -
  have "P os \<Longrightarrow> set ns \<subseteq> set nbs \<Longrightarrow> P (exploreNeighbors e cur cs ns os)" for ns os
  proof (induction ns arbitrary: os)
    case Nil
    then show ?case by simp
  next
    case (Cons nb ns)
    from Cons.prems(2) have nb: "nb \<in> set nbs" and ns: "set ns \<subseteq> set nbs" by simp_all
    have "P (exploreStep e cur cs nb os)"
    proof (cases rule: exploreStep_cases [of e cur cs nb os])
      case skip
      with Cons.prems(1) show ?thesis by simp
    next
      case new
      with assms(2) [OF Cons.prems(1) nb new(1,2)] show ?thesis by simp
    next
      case (upd i)
      with assms(3) [OF Cons.prems(1) nb upd(1-4)] show ?thesis by simp
    qed
    from Cons.IH [OF this ns] show ?case by (simp only: explore_Cons)
  qed
  from this [OF assms(1) subset_refl] show ?thesis .
qed

lemma nodePos_newNode [simp]: "nodePos (newNode e cur nb) = nodePos nb"
  by (simp add: newNode_def nodePos_def)

lemma nodePos_updNode [simp]: "nodePos (updNode cur ex) = nodePos ex"
  by (simp add: updNode_def nodePos_def)

lemma node_g_newNode [simp]: "node_g (newNode e cur nb) = node_g cur + 1"
  by (simp add: newNode_def)

lemma node_g_updNode [simp]: "node_g (updNode cur ex) = node_g cur + 1"
  by (simp add: updNode_def)

lemma explore_keeps:
  assumes "\<exists>n\<in>set openSet. nodePos n = v \<and> Q (node_g n)"
    and down: "\<And>a b. Q a \<Longrightarrow> b \<le> a \<Longrightarrow> Q b"
  shows "\<exists>n\<in>set (exploreNeighbors e cur cs nbs openSet). nodePos n = v \<and> Q (node_g n)"
proof (rule explore_rule [where P = "\<lambda>os. \<exists>n\<in>set os. nodePos n = v \<and> Q (node_g n)"])
  show "\<exists>n\<in>set openSet. nodePos n = v \<and> Q (node_g n)" by (rule assms(1))
next
  fix os nb
  assume "\<exists>n\<in>set os. nodePos n = v \<and> Q (node_g n)"
  then show "\<exists>n\<in>set (os @ [newNode e cur nb]). nodePos n = v \<and> Q (node_g n)" by auto
next
  fix os nb i
  assume P: "\<exists>n\<in>set os. nodePos n = v \<and> Q (node_g n)" and i: "i < length os"
    and less: "node_g cur + 1 < node_g (os ! i)"
  from P obtain n where n: "n \<in> set os" "nodePos n = v" "Q (node_g n)" by blast
  then obtain j where j: "j < length os" "os ! j = n" by (auto simp: in_set_conv_nth)
  show "\<exists>n\<in>set (os[i := updNode cur (os ! i)]). nodePos n = v \<and> Q (node_g n)"
  proof (cases "j = i")
    case True
    with j n less have "Q (node_g (updNode cur (os ! i)))"
      using down [of "node_g n" "node_g cur + 1"] by simp
    moreover have "nodePos (updNode cur (os ! i)) = v" using True j n by simp
    moreover have "updNode cur (os ! i) \<in> set (os[i := updNode cur (os ! i)])"
      using i by (simp add: set_update_memI)
    ultimately show ?thesis by blast
  next
    case False
    with j i have "(os[i := updNode cur (os ! i)]) ! j = n" by simp
    moreover have "j < length (os[i := updNode cur (os ! i)])" using j by simp
    ultimately have "n \<in> set (os[i := updNode cur (os ! i)])"
      by (metis nth_mem)
    with n show ?thesis by blast
  qed
qed

lemma explore_covers:
  assumes "nb \<in> set nbs"
  shows "nodePos nb \<in> cs \<or>
    (\<exists>n\<in>set (exploreNeighbors e cur cs nbs openSet). nodePos n = nodePos nb \<and> node_g n \<le> node_g cur + 1)"
  using assms
proof (induction nbs arbitrary: openSet)
  case Nil
  then show ?case by simp
next
  case (Cons a nbs)
  show ?case
  proof (cases "nb = a")
    case False
    with Cons.prems have "nb \<in> set nbs" by simp
    from Cons.IH [OF this, of "exploreStep e cur cs a openSet"] show ?thesis
      by (simp only: explore_Cons)
  next
    case True
    let ?Q = "\<lambda>g. g \<le> node_g cur + 1"
    have keep: "\<exists>n\<in>set os. nodePos n = nodePos a \<and> ?Q (node_g n) \<Longrightarrow>
       \<exists>n\<in>set (exploreNeighbors e cur cs nbs os). nodePos n = nodePos a \<and> ?Q (node_g n)" for os
      by (rule explore_keeps) auto
    have "nodePos a \<in> cs \<or>
       (\<exists>n\<in>set (exploreStep e cur cs a openSet). nodePos n = nodePos a \<and> ?Q (node_g n))"
    proof (cases "nodePos a \<in> cs")
      case True
      then show ?thesis by simp
    next
      case False
      note nc = this
      show ?thesis
      proof (cases "findIndex (\<lambda>n. node_x n = node_x a \<and> node_y n = node_y a) openSet")
        case None
        with nc show ?thesis by (simp add: exploreStep_def)
      next
        case (Some i)
        from findIndex_Some [OF Some] have i: "i < length openSet"
          and same: "nodePos (openSet ! i) = nodePos a" by (simp_all add: node_eq_nodePos)
        show ?thesis
        proof (cases "node_g cur + 1 < node_g (openSet ! i)")
          case True
          have "updNode cur (openSet ! i) \<in> set (openSet[i := updNode cur (openSet ! i)])"
            using i by (simp add: set_update_memI)
          then have "\<exists>n\<in>set (openSet[i := updNode cur (openSet ! i)]). nodePos n = nodePos a \<and> ?Q (node_g n)"
            using same by (intro bexI [of _ "updNode cur (openSet ! i)"]) simp_all
          with nc Some True show ?thesis by (simp add: exploreStep_def)
        next
          case False
          have "\<exists>n\<in>set openSet. nodePos n = nodePos a \<and> ?Q (node_g n)"
            using i same False by (intro bexI [of _ "openSet ! i"]) simp_all
          with nc Some False show ?thesis by (simp add: exploreStep_def)
        qed
      qed
    qed
    then show ?thesis
    proof
      assume "nodePos a \<in> cs"
      with True show ?thesis by simp
    next
      assume "\<exists>n\<in>set (exploreStep e cur cs a openSet). nodePos n = nodePos a \<and> ?Q (node_g n)"
      from keep [OF this] True show ?thesis by (simp only: explore_Cons) simp
    qed
  qed
qed

lemma good_g_nonneg: "good gr s e n \<Longrightarrow> 0 \<le> node_g n"
  using chain_nonempty [of n] by (cases "chain n") (auto simp: good_def)

lemma chain_newNode: "chain (newNode e cur nb) = chain cur @ [nodePos nb]"
  by (simp add: newNode_def nodePos_def)

lemma chain_updNode: "chain (updNode cur ex) = chain cur @ [nodePos ex]"
  by (simp add: updNode_def nodePos_def)

lemma route_snoc:
  assumes "route gr s c p" "isWalkable gr (fst v) (snd v)" "isValidMove c v"
  shows "route gr s v (p @ [v])"
proof -
  from assms(1) have w: "walkPath gr p" and h: "hd p = s" and l: "last p = c"
    by (simp_all add: route_def)
  from w have ne: "p \<noteq> []" by auto
  have "walkPath gr (p @ [v])"
    using walkPath_append [OF ne, of "[v]" gr] w l assms(2,3) by simp
  with ne h show ?thesis by (simp add: route_def)
qed

lemma good_newNode:
  assumes "good gr s e cur" "isWalkable gr (node_x nb) (node_y nb)" "isValidMove (nodePos cur) (nodePos nb)"
  shows "good gr s e (newNode e cur nb)"
proof -
  from assms(1) have r: "route gr s (nodePos cur) (chain cur)"
    and g: "node_g cur = int (length (chain cur)) - 1" by (simp_all add: good_def)
  have "route gr s (nodePos nb) (chain cur @ [nodePos nb])"
    by (rule route_snoc [OF r _ assms(3)]) (simp add: nodePos_def assms(2))
  with g show ?thesis
    by (simp add: good_def chain_newNode) (simp add: newNode_def nodePos_def)
qed

lemma good_updNode:
  assumes "good gr s e cur" "good gr s e ex" "isValidMove (nodePos cur) (nodePos ex)"
  shows "good gr s e (updNode cur ex)"
proof -
  from assms(1) have r: "route gr s (nodePos cur) (chain cur)"
    and g: "node_g cur = int (length (chain cur)) - 1" by (simp_all add: good_def)
  from assms(2) have rx: "route gr s (nodePos ex) (chain ex)"
    and hx: "node_h ex = heuristic (nodePos ex) e" by (simp_all add: good_def)
  from rx have "walkPath gr (chain ex)" "last (chain ex) = nodePos ex" by (simp_all add: route_def)
  then have "isWalkable gr (fst (nodePos ex)) (snd (nodePos ex))"
    using walkPath_walkable [of gr "chain ex" "nodePos ex"] chain_nonempty [of ex]
    by (metis last_in_set)
  from route_snoc [OF r this assms(3)] g hx show ?thesis
    by (simp add: good_def chain_updNode) (simp add: updNode_def)
qed

lemma getNeighbors_sound:
  assumes "nb \<in> set (getNeighbors gr cur)"
  shows "isWalkable gr (node_x nb) (node_y nb)" and "isValidMove (nodePos cur) (nodePos nb)"
proof -
  from assms obtain dir where dir: "dir \<in> set directions"
    and w: "isWalkable gr (node_x cur + fst dir) (node_y cur + snd dir)"
    and nb: "nb = newPathNode (node_x cur + fst dir) (node_y cur + snd dir) (Some cur)"
    unfolding getNeighbors_def by auto
  from w nb show "isWalkable gr (node_x nb) (node_y nb)" by (simp add: newPathNode_def)
  from dir have "dir = (0, -1) \<or> dir = (0, 1) \<or> dir = (-1, 0) \<or> dir = (1, 0)"
    by (simp add: directions_def)
  then show "isValidMove (nodePos cur) (nodePos nb)"
    by (auto simp: nb newPathNode_def isValidMove_def nodePos_def)
qed

lemma isValidMove_cases:
  "isValidMove a v \<longleftrightarrow>
     v = (fst a, snd a - 1) \<or> v = (fst a, snd a + 1) \<or> v = (fst a - 1, snd a) \<or> v = (fst a + 1, snd a)"
proof -
  obtain vx vy where v: "v = (vx, vy)" by (cases v)
  show ?thesis unfolding v isValidMove_def Let_def fst_conv snd_conv prod.inject by linarith
qed

lemma getNeighbors_complete:
  assumes "isWalkable gr (fst v) (snd v)" "isValidMove (nodePos cur) v"
  shows "\<exists>nb\<in>set (getNeighbors gr cur). nodePos nb = v"
proof -
  from assms(2) have "v = (node_x cur, node_y cur - 1) \<or> v = (node_x cur, node_y cur + 1) \<or>
      v = (node_x cur - 1, node_y cur) \<or> v = (node_x cur + 1, node_y cur)"
    by (simp add: isValidMove_cases nodePos_def)
  then obtain dir where dir: "dir \<in> set directions" and v: "v = (node_x cur + fst dir, node_y cur + snd dir)"
    unfolding directions_def by fastforce
  let ?nb = "newPathNode (node_x cur + fst dir) (node_y cur + snd dir) (Some cur)"
  from dir assms(1) have "dir \<in> set (filter (\<lambda>dir. isWalkable gr (node_x cur + fst dir) (node_y cur + snd dir)) directions)"
    by (simp add: v)
  then have "?nb \<in> set (getNeighbors gr cur)"
    unfolding getNeighbors_def set_map by (rule imageI)
  moreover have "nodePos ?nb = v" by (simp add: v newPathNode_def)
  ultimately show ?thesis by blast
qed

lemma pop_optimal:
  assumes inv: "astar_inv gr s e openSet cs" and ne: "openSet \<noteq> []"
    and cur: "cur = openSet ! findLowestF openSet" and q: "route gr s (nodePos cur) q"
  shows "node_g cur \<le> int (length q) - 1"
proof -
  from findLowestF_spec(1) [OF ne] cur have cur_in: "cur \<in> set openSet" by simp
  from inv have goods: "\<forall>n\<in>set openSet. good gr s e n"
    and disj: "nodePos ` set openSet \<inter> cs = {}"
    and start: "s \<in> nodePos ` set openSet \<union> cs"
    and zero: "\<forall>n\<in>set openSet. nodePos n = s \<longrightarrow> node_g n = 0"
    and edges: "\<forall>c\<in>cs. \<forall>v. isWalkable gr (fst v) (snd v) \<and> isValidMove c v \<longrightarrow>
        v \<in> cs \<or> (\<exists>n\<in>set openSet. nodePos n = v \<and> (\<forall>q. route gr s c q \<longrightarrow> node_g n \<le> int (length q)))"
    by (simp_all add: astar_inv_def)
  from q have w: "walkPath gr q" and hq: "hd q = s" and lq: "last q = nodePos cur"
    by (simp_all add: route_def)
  from w have qne: "q \<noteq> []" by auto
  from cur_in disj have "nodePos cur \<notin> cs" by auto
  with lq qne have "\<exists>x\<in>set q. x \<notin> cs" by (metis last_in_set)
  from split_list_first_prop [OF this]
  obtain q1 v q2 where split: "q = q1 @ v # q2" and v: "v \<notin> cs" and q1: "\<forall>y\<in>set q1. \<not> y \<notin> cs"
    by blast
  have tail: "walkPath gr (v # q2)"
  proof (cases "q1 = []")
    case True
    with w split show ?thesis by simp
  next
    case False
    with w split walkPath_append [OF False, of "v # q2" gr] show ?thesis by simp
  qed
  have "\<exists>m\<in>set openSet. nodePos m = v \<and> node_g m \<le> int (length q1)"
  proof (cases "q1 = []")
    case True
    with split hq have "v = s" by simp
    with v start obtain m where "m \<in> set openSet" "nodePos m = s" by auto
    with zero \<open>v = s\<close> show ?thesis by auto
  next
    case False
    let ?u = "last q1"
    from False q1 have u: "?u \<in> cs" by (metis last_in_set)
    from w split walkPath_append [OF False, of "v # q2" gr]
    have w1: "walkPath gr q1" and step: "isValidMove ?u v" by simp_all
    from tail have wv: "isWalkable gr (fst v) (snd v)" by (simp add: walkPath_Cons)
    from False split hq have "hd q1 = s" by simp
    with w1 have r1: "route gr s ?u q1" by (simp add: route_def)
    from edges u wv step v obtain m where "m \<in> set openSet" "nodePos m = v"
      "\<forall>q. route gr s ?u q \<longrightarrow> node_g m \<le> int (length q)" by blast
    with r1 show ?thesis by blast
  qed
  then obtain m where m: "m \<in> set openSet" "nodePos m = v" "node_g m \<le> int (length q1)" by blast
  from heuristic_walk [OF tail, of e] split lq
  have hv: "heuristic v e \<le> int (length q2) + heuristic (nodePos cur) e" by simp
  from goods m have fm: "node_f m = node_g m + heuristic v e" by (simp add: good_def)
  from goods cur_in have fc: "node_f cur = node_g cur + heuristic (nodePos cur) e" by (simp add: good_def)
  from findLowestF_spec(2) [OF ne m(1)] cur have "node_f cur \<le> node_f m" by simp
  with fm fc hv m(3) split show ?thesis by simp
qed

lemma distinct_remove_nth:
  assumes "distinct (map f xs)" "i < length xs"
  shows "distinct (map f (take i xs @ drop (Suc i) xs))"
    and "f (xs ! i) \<notin> f ` set (take i xs @ drop (Suc i) xs)"
proof -
  from assms(2) have xs: "xs = take i xs @ xs ! i # drop (Suc i) xs" by (rule id_take_nth_drop)
  from assms(1) have "distinct (map f (take i xs @ xs ! i # drop (Suc i) xs))"
    using xs by simp
  then show "distinct (map f (take i xs @ drop (Suc i) xs))"
    and "f (xs ! i) \<notin> f ` set (take i xs @ drop (Suc i) xs)"
    by auto
qed

lemma disjoint_insert_sub: "A \<subseteq> B \<Longrightarrow> B \<inter> C = {} \<Longrightarrow> x \<notin> A \<Longrightarrow> A \<inter> insert x C = {}"
  by auto

lemma astar_inv_step:
  assumes inv: "astar_inv gr s e openSet cs" and ne: "openSet \<noteq> []"
    and i: "i = findLowestF openSet" and cur: "cur = openSet ! i"
    and notend: "nodePos cur \<noteq> e"
  shows "astar_inv gr s e
           (exploreNeighbors e cur (insert (nodePos cur) cs) (getNeighbors gr cur)
              (take i openSet @ drop (Suc i) openSet))
           (insert (nodePos cur) cs)"
proof -
  let ?o1 = "take i openSet @ drop (Suc i) openSet"
  let ?cs1 = "insert (nodePos cur) cs"
  let ?nbs = "getNeighbors gr cur"
  let ?o2 = "exploreNeighbors e cur ?cs1 ?nbs ?o1"
  from findLowestF_spec(1) [OF ne] i have il: "i < length openSet" by simp
  with cur have cur_in: "cur \<in> set openSet" by simp
  from inv have goods: "\<forall>n\<in>set openSet. good gr s e n"
    and dist: "distinct (map nodePos openSet)"
    and disj: "nodePos ` set openSet \<inter> cs = {}"
    and start: "s \<in> nodePos ` set openSet \<union> cs"
    and zero: "\<forall>n\<in>set openSet. nodePos n = s \<longrightarrow> node_g n = 0"
    and endc: "e \<notin> cs"
    and edges: "\<forall>c\<in>cs. \<forall>v. isWalkable gr (fst v) (snd v) \<and> isValidMove c v \<longrightarrow>
        v \<in> cs \<or> (\<exists>n\<in>set openSet. nodePos n = v \<and> (\<forall>q. route gr s c q \<longrightarrow> node_g n \<le> int (length q)))"
    by (simp_all add: astar_inv_def)
  from goods cur_in have gcur: "good gr s e cur" by simp
  have all: "set openSet = insert cur (set ?o1)"
    using set_remove_nth [OF il] cur by simp
  then have sub: "set ?o1 \<subseteq> set openSet" by blast
  from distinct_remove_nth [OF dist il] cur
  have dist1: "distinct (map nodePos ?o1)" and cur_out: "nodePos cur \<notin> nodePos ` set ?o1"
    by simp_all
  have "nodePos ` set openSet = insert (nodePos cur) (nodePos ` set ?o1)"
    unfolding all by (rule image_insert)
  with start have start1: "s \<in> nodePos ` set ?o1 \<union> ?cs1"
    by blast

  \<comment> \<open>what the inner loop keeps\<close>
  let ?P = "\<lambda>os. (\<forall>n\<in>set os. good gr s e n) \<and> distinct (map nodePos os) \<and>
           nodePos ` set os \<inter> ?cs1 = {} \<and> s \<in> nodePos ` set os \<union> ?cs1 \<and>
           (\<forall>n\<in>set os. nodePos n = s \<longrightarrow> node_g n = 0)"
  have J: "?P ?o2"
  proof (rule explore_rule [where P = ?P])
    show "?P ?o1"
    proof (intro conjI)
      show "\<forall>n\<in>set ?o1. good gr s e n" using goods sub by blast
      show "distinct (map nodePos ?o1)" by (rule dist1)
      have "nodePos ` set ?o1 \<subseteq> nodePos ` set openSet" using sub by blast
      from this disj cur_out show "nodePos ` set ?o1 \<inter> ?cs1 = {}"
        by (rule disjoint_insert_sub)
      show "s \<in> nodePos ` set ?o1 \<union> ?cs1" by (rule start1)
      show "\<forall>n\<in>set ?o1. nodePos n = s \<longrightarrow> node_g n = 0" using zero sub by blast
    qed
  next
    fix os nb
    assume P: "?P os"
      and nb: "nb \<in> set ?nbs" and nc: "nodePos nb \<notin> ?cs1" and fresh: "nodePos nb \<notin> nodePos ` set os"
    from P have P1: "\<forall>n\<in>set os. good gr s e n" and P2: "distinct (map nodePos os)"
      and P3: "nodePos ` set os \<inter> ?cs1 = {}" and P4: "s \<in> nodePos ` set os \<union> ?cs1"
      and P5: "\<forall>n\<in>set os. nodePos n = s \<longrightarrow> node_g n = 0" by blast+
    let ?n = "newNode e cur nb"
    from getNeighbors_sound [OF nb] gcur have gn: "good gr s e ?n"
      by (intro good_newNode)
    from P4 nc fresh have ns: "nodePos nb \<noteq> s" by blast
    have st: "set (os @ [?n]) = insert ?n (set os)" by simp
    show "?P (os @ [?n])"
    proof (intro conjI)
      show "\<forall>n\<in>set (os @ [?n]). good gr s e n" unfolding st using P1 gn by blast
      show "distinct (map nodePos (os @ [?n]))" using P2 fresh by simp
      show "nodePos ` set (os @ [?n]) \<inter> ?cs1 = {}" unfolding st using P3 nc by simp
      show "s \<in> nodePos ` set (os @ [?n]) \<union> ?cs1" unfolding st using P4 by blast
      show "\<forall>n\<in>set (os @ [?n]). nodePos n = s \<longrightarrow> node_g n = 0"
        unfolding st using P5 ns by simp
    qed
  next
    fix os nb j
    assume P: "?P os"
      and nb: "nb \<in> set ?nbs" and nc: "nodePos nb \<notin> ?cs1" and j: "j < length os"
      and same: "nodePos (os ! j) = nodePos nb" and less: "node_g cur + 1 < node_g (os ! j)"
    from P have P1: "\<forall>n\<in>set os. good gr s e n" and P2: "distinct (map nodePos os)"
      and P3: "nodePos ` set os \<inter> ?cs1 = {}" and P4: "s \<in> nodePos ` set os \<union> ?cs1"
      and P5: "\<forall>n\<in>set os. nodePos n = s \<longrightarrow> node_g n = 0" by blast+
    let ?u = "updNode cur (os ! j)"
    from j have oj: "os ! j \<in> set os" by simp
    with P1 have gj: "good gr s e (os ! j)" by simp
    from getNeighbors_sound(2) [OF nb] same have "isValidMove (nodePos cur) (nodePos (os ! j))" by simp
    from good_updNode [OF gcur gj this] have gu: "good gr s e ?u" .
    have pm: "map nodePos (os[j := ?u]) = map nodePos os"
      by (rule map_nodePos_update [OF j]) simp
    then have im: "nodePos ` set (os[j := ?u]) = nodePos ` set os" by (metis set_map)
    have notstart: "nodePos ?u \<noteq> s"
    proof
      assume "nodePos ?u = s"
      with P5 oj have "node_g (os ! j) = 0" by simp
      with less good_g_nonneg [OF gcur] show False by simp
    qed
    have members: "set (os[j := ?u]) \<subseteq> insert ?u (set os)"
      by (rule set_update_subset_insert)
    show "?P (os[j := ?u])"
    proof (intro conjI)
      show "\<forall>n\<in>set (os[j := ?u]). good gr s e n" using members P1 gu by blast
      show "distinct (map nodePos (os[j := ?u]))" unfolding pm by (rule P2)
      show "nodePos ` set (os[j := ?u]) \<inter> ?cs1 = {}" unfolding im by (rule P3)
      show "s \<in> nodePos ` set (os[j := ?u]) \<union> ?cs1" unfolding im by (rule P4)
      show "\<forall>n\<in>set (os[j := ?u]). nodePos n = s \<longrightarrow> node_g n = 0"
        using members P5 notstart by blast
    qed
  qed

  have edges': "v \<in> ?cs1 \<or> (\<exists>n\<in>set ?o2. nodePos n = v \<and> (\<forall>q. route gr s c q \<longrightarrow> node_g n \<le> int (length q)))"
    if c: "c \<in> ?cs1" and wv: "isWalkable gr (fst v) (snd v)" and step: "isValidMove c v" for c v
  proof (cases "c = nodePos cur")
    case True
    from getNeighbors_complete [OF wv] step True obtain nb where nb: "nb \<in> set ?nbs" "nodePos nb = v"
      by blast
    from explore_covers [OF nb(1), of ?cs1 e cur ?o1] nb(2)
    have cov: "v \<in> ?cs1 \<or> (\<exists>n\<in>set ?o2. nodePos n = v \<and> node_g n \<le> node_g cur + 1)" by simp
    have bound: "node_g cur + 1 \<le> int (length q)" if "route gr s c q" for q
      using pop_optimal [OF inv ne _ that [unfolded True]] cur i by simp
    from cov show ?thesis
    proof
      assume "v \<in> ?cs1"
      then show ?thesis ..
    next
      assume "\<exists>n\<in>set ?o2. nodePos n = v \<and> node_g n \<le> node_g cur + 1"
      then obtain n where n: "n \<in> set ?o2" "nodePos n = v" "node_g n \<le> node_g cur + 1" by blast
      have "\<forall>q. route gr s c q \<longrightarrow> node_g n \<le> int (length q)"
      proof (intro allI impI)
        fix q assume "route gr s c q"
        from bound [OF this] n(3) show "node_g n \<le> int (length q)" by linarith
      qed
      with n(1,2) show ?thesis by blast
    qed
  next
    case False
    with c have cc: "c \<in> cs" by simp
    from edges cc wv step
    have "v \<in> cs \<or> (\<exists>n\<in>set openSet. nodePos n = v \<and> (\<forall>q. route gr s c q \<longrightarrow> node_g n \<le> int (length q)))"
      by blast
    then show ?thesis
    proof
      assume "v \<in> cs"
      then show ?thesis by simp
    next
      assume "\<exists>n\<in>set openSet. nodePos n = v \<and> (\<forall>q. route gr s c q \<longrightarrow> node_g n \<le> int (length q))"
      then obtain n where n: "n \<in> set openSet" "nodePos n = v"
        "\<forall>q. route gr s c q \<longrightarrow> node_g n \<le> int (length q)" by blast
      show ?thesis
      proof (cases "n = cur")
        case True
        with n(2) show ?thesis by simp
      next
        case False
        with n(1) all have "n \<in> set ?o1" by simp
        with n have "\<exists>n\<in>set ?o1. nodePos n = v \<and> (\<forall>q. route gr s c q \<longrightarrow> node_g n \<le> int (length q))"
          by blast
        then have "\<exists>n\<in>set ?o2. nodePos n = v \<and> (\<forall>q. route gr s c q \<longrightarrow> node_g n \<le> int (length q))"
        proof (rule explore_keeps [where Q = "\<lambda>g. \<forall>q. route gr s c q \<longrightarrow> g \<le> int (length q)"])
          fix a b :: int
          assume "\<forall>q. route gr s c q \<longrightarrow> a \<le> int (length q)" and "b \<le> a"
          then show "\<forall>q. route gr s c q \<longrightarrow> b \<le> int (length q)" by (meson order_trans)
        qed
        then show ?thesis by simp
      qed
    qed
  qed
  from endc notend have e1: "e \<notin> ?cs1" by simp
  from J have J1: "\<forall>n\<in>set ?o2. good gr s e n" and J2: "distinct (map nodePos ?o2)"
    and J3: "nodePos ` set ?o2 \<inter> ?cs1 = {}" and J4: "s \<in> nodePos ` set ?o2 \<union> ?cs1"
    and J5: "\<forall>n\<in>set ?o2. nodePos n = s \<longrightarrow> node_g n = 0" by blast+
  have J7: "\<forall>c\<in>?cs1. \<forall>v. isWalkable gr (fst v) (snd v) \<and> isValidMove c v \<longrightarrow>
        v \<in> ?cs1 \<or> (\<exists>n\<in>set ?o2. nodePos n = v \<and> (\<forall>q. route gr s c q \<longrightarrow> node_g n \<le> int (length q)))"
    using edges' by blast
  show ?thesis
    unfolding astar_inv_def by (intro conjI J1 J2 J3 J4 J5 e1 J7)
qed

lemma route_ends_walkable:
  assumes "route gr s e q"
  shows "isWalkable gr (fst s) (snd s)" and "isWalkable gr (fst e) (snd e)"
proof -
  from assms have w: "walkPath gr q" and h: "hd q = s" and l: "last q = e"
    by (simp_all add: route_def)
  from w have "q \<noteq> []" by auto
  with h l have "s \<in> set q" "e \<in> set q" by auto
  with w show "isWalkable gr (fst s) (snd s)" and "isWalkable gr (fst e) (snd e)"
    by (auto dest: walkPath_walkable)
qed

lemma exhausted_no_route:
  assumes inv: "astar_inv gr s e [] cs"
  shows "\<not> route gr s e q"
proof
  assume q: "route gr s e q"
  from inv have start: "s \<in> cs" and endc: "e \<notin> cs"
    and edges: "\<forall>c\<in>cs. \<forall>v. isWalkable gr (fst v) (snd v) \<and> isValidMove c v \<longrightarrow> v \<in> cs"
    by (simp_all add: astar_inv_def)
  from q have w: "walkPath gr q" and hq: "hd q = s" and lq: "last q = e"
    by (simp_all add: route_def)
  from w have qne: "q \<noteq> []" by auto
  with lq endc have "\<exists>x\<in>set q. x \<notin> cs" by (metis last_in_set)
  from split_list_first_prop [OF this]
  obtain q1 v q2 where split: "q = q1 @ v # q2" and v: "v \<notin> cs" and q1: "\<forall>y\<in>set q1. \<not> y \<notin> cs"
    by blast
  show False
  proof (cases "q1 = []")
    case True
    with split hq start v show False by simp
  next
    case False
    from False q1 have u: "last q1 \<in> cs" by (metis last_in_set)
    from w split walkPath_append [OF False, of "v # q2" gr]
    have "isValidMove (last q1) v" "walkPath gr (v # q2)" by simp_all
    then have "isValidMove (last q1) v" "isWalkable gr (fst v) (snd v)"
      by (simp_all add: walkPath_Cons)
    with edges u v show False by blast
  qed
qed

lemma astar_loop_correct:
  "astar_inv gr s e openSet cs \<Longrightarrow>
   (if \<exists>q. route gr s e q
    then route gr s e (astar_loop gr e openSet cs) \<and>
         (\<forall>q. route gr s e q \<longrightarrow> length (astar_loop gr e openSet cs) \<le> length q)
    else astar_loop gr e openSet cs = [])"
proof (induction gr e openSet cs rule: astar_loop.induct)
  case (1 gr e openSet cs)
  note inv = "1.prems"
  show ?case
  proof (cases "openSet = []")
    case True
    with inv have "\<not> route gr s e q" for q by (simp add: exhausted_no_route)
    moreover from True have "astar_loop gr e openSet cs = []"
      by (simp add: astar_loop.simps)
    ultimately show ?thesis by simp
  next
    case False
    note ne = this
    let ?i = "findLowestF openSet"
    let ?cur = "openSet ! ?i"
    from findLowestF_spec(1) [OF ne] have cur_in: "?cur \<in> set openSet" by simp
    with inv have gcur: "good gr s e ?cur" by (simp add: astar_inv_def)
    show ?thesis
    proof (cases "node_x ?cur = fst e \<and> node_y ?cur = snd e")
      case True
      then have pe: "nodePos ?cur = e" by (simp add: nodePos_def prod_eq_iff)
      from ne True have res: "astar_loop gr e openSet cs = chain ?cur"
        by (subst astar_loop.simps) (simp add: Let_def reconstructPath_chain)
      from gcur pe have r: "route gr s e (chain ?cur)"
        and g: "node_g ?cur = int (length (chain ?cur)) - 1" by (simp_all add: good_def)
      have "length (chain ?cur) \<le> length q" if "route gr s e q" for q
        using pop_optimal [OF inv ne refl, of q] that pe g by simp
      with r res show ?thesis by auto
    next
      case False
      then have pe: "nodePos ?cur \<noteq> e" by (auto simp: nodePos_def)
      let ?o1 = "take ?i openSet @ drop (?i + 1) openSet"
      let ?cs1 = "insert (node_x ?cur, node_y ?cur) cs"
      let ?o2 = "exploreNeighbors e ?cur ?cs1 (getNeighbors gr ?cur) ?o1"
      from ne False have res: "astar_loop gr e openSet cs = astar_loop gr e ?o2 ?cs1"
        by (subst astar_loop.simps) (auto simp add: Let_def)
      from astar_inv_step [OF inv ne refl refl pe]
      have "astar_inv gr s e ?o2 ?cs1" by (simp add: nodePos_def)
      from "1.IH" [OF ne refl refl False refl refl refl this]
      show ?thesis unfolding res .
    qed
  qed
qed

lemma astar_inv_init:
  assumes "isWalkable gr (fst s) (snd s)"
  shows "astar_inv gr s e [PathNode (fst s) (snd s) 0 (heuristic s e) (heuristic s e) None] {}"
  using assms by (simp add: astar_inv_def good_def route_def nodePos_def)

lemma findPath_correct:
  "(if \<exists>q. route gr s e q
    then route gr s e (findPath gr s e) \<and>
         (\<forall>q. route gr s e q \<longrightarrow> length (findPath gr s e) \<le> length q)
    else findPath gr s e = [])"
proof (cases "isWalkable gr (fst s) (snd s) \<and> isWalkable gr (fst e) (snd e)")
  case True
  then have eq: "findPath gr s e =
     astar_loop gr e [PathNode (fst s) (snd s) 0 (heuristic s e) (heuristic s e) None] {}"
    by (simp add: findPath_def Let_def)
  from True have "isWalkable gr (fst s) (snd s)" ..
  then show ?thesis
    unfolding eq by (intro astar_loop_correct astar_inv_init)
next
  case False
  then have "findPath gr s e = []" by (auto simp: findPath_def)
  moreover from False have "\<not> route gr s e q" for q
    using route_ends_walkable [of gr s e q] by blast
  ultimately show ?thesis by simp
qed

lemma route_lower_bound:
  assumes "route gr s e p"
  shows "heuristic s e \<le> int (length p) - 1"
proof -
  from assms have w: "walkPath gr p" and h: "hd p = s" and l: "last p = e"
    by (simp_all add: route_def)
  from w obtain rest where p: "p = s # rest" using h by (cases p) auto
  from heuristic_walk [of gr s rest e] w l p show ?thesis by (simp add: heuristic_def)
qed

lemma isWalkable_free:
  assumes "length gr = r" "\<forall>row\<in>set gr. length row = c \<and> 1 \<notin> set row"
    and "0 \<le> x" "x < int c" "0 \<le> y" "y < int r"
  shows "isWalkable gr x y"
proof -
  from assms have y: "nat y < length gr" by simp
  then have row: "gr ! nat y \<in> set gr" by simp
  from y have "gr ! 0 \<in> set gr" by (cases gr) auto
  with assms have c0: "length (gr ! 0) = c" by blast
  from row assms have len: "length (gr ! nat y) = c" and no1: "1 \<notin> set (gr ! nat y)" by blast+
  from len assms have "nat x < length (gr ! nat y)" by simp
  with no1 have "gr ! nat y ! nat x \<noteq> 1" by (metis nth_mem)
  with assms c0 len show ?thesis by (simp add: isWalkable_def cell_def)
qed

lemma free4_route:
  assumes "length gr = 4" "\<forall>row\<in>set gr. length row = 4 \<and> 1 \<notin> set row"
  shows "route gr (0, 0) (3, 3) [(0, 0), (1, 0), (2, 0), (3, 0), (3, 1), (3, 2), (3, 3)]"
proof -
  have w: "isWalkable gr x y" if "0 \<le> x" "x < 4" "0 \<le> y" "y < 4" for x y
    using isWalkable_free [OF assms, of x y] that by simp
  show ?thesis
    by (simp add: route_def isValidMove_def w)
qed

lemma free4_length:
  assumes "length gr = 4" "\<forall>row\<in>set gr. length row = 4 \<and> 1 \<notin> set row"
  shows "length (findPath gr (0, 0) (3, 3)) = 7"
proof -
  note r = free4_route [OF assms]
  then have ex: "\<exists>q. route gr (0, 0) (3, 3) q" by blast
  with findPath_correct [of gr "(0, 0)" "(3, 3)"]
  have fr: "route gr (0, 0) (3, 3) (findPath gr (0, 0) (3, 3))"
    and le: "\<forall>q. route gr (0, 0) (3, 3) q \<longrightarrow> length (findPath gr (0, 0) (3, 3)) \<le> length q"
    by simp_all
  from le r have "length (findPath gr (0, 0) (3, 3)) \<le> 7" by fastforce
  moreover from route_lower_bound [OF fr] have "6 \<le> int (length (findPath gr (0, 0) (3, 3))) - 1"
    by (simp add: heuristic_def)
  ultimately show ?thesis by simp
qed

text \<open>
  Claim C2. Whenever some four-directional route of walkable cells leads from start to goal,
  \<^verbatim>\<open>findPath\<close> returns such a route (from start to goal inclusive, consecutive cells one
  cardinal step apart, every cell walkable) and no route has fewer cells; when there is no
  route it returns the empty sequence. \<^verbatim>\<open>hasPath\<close> is true exactly when a route exists,
  \<^verbatim>\<open>getPathLength\<close> is -1 exactly when none exists, and on every 4 by 4 grid without
  obstacle cells \<^verbatim>\<open>getPathLength\<close> from (0,0) to (3,3) is 6 and \<^verbatim>\<open>hasPath\<close> is true.
\<close>

theorem findPath_shortest_route:
  "((\<exists>q. route gr s e q) \<longrightarrow>
      route gr s e (findPath gr s e) \<and>
      (\<forall>q. route gr s e q \<longrightarrow> length (findPath gr s e) \<le> length q)) \<and>
   ((\<nexists>q. route gr s e q) \<longrightarrow> findPath gr s e = []) \<and>
   (hasPath gr s e \<longleftrightarrow> (\<exists>q. route gr s e q)) \<and>
   (getPathLength gr s e = -1 \<longleftrightarrow> (\<nexists>q. route gr s e q)) \<and>
   (length gr4 = 4 \<and> (\<forall>row\<in>set gr4. length row = 4 \<and> 1 \<notin> set row) \<longrightarrow>
      getPathLength gr4 (0, 0) (3, 3) = 6 \<and> hasPath gr4 (0, 0) (3, 3))"
proof -
  note c = findPath_correct [of gr s e]
  have ne: "findPath gr s e \<noteq> []" if "\<exists>q. route gr s e q"
    using c that by (auto simp: route_def)
  have 1: "(\<exists>q. route gr s e q) \<longrightarrow>
      route gr s e (findPath gr s e) \<and>
      (\<forall>q. route gr s e q \<longrightarrow> length (findPath gr s e) \<le> length q)"
    using c by (simp split: if_splits)
  have 2: "(\<nexists>q. route gr s e q) \<longrightarrow> findPath gr s e = []"
    using c by (simp split: if_splits)
  have 3: "hasPath gr s e \<longleftrightarrow> (\<exists>q. route gr s e q)"
    using ne 2 by (auto simp: hasPath_def)
  have 4: "getPathLength gr s e = -1 \<longleftrightarrow> (\<nexists>q. route gr s e q)"
    using ne 2 by (auto simp: getPathLength_def Let_def)
  have 5: "length gr4 = 4 \<and> (\<forall>row\<in>set gr4. length row = 4 \<and> 1 \<notin> set row) \<longrightarrow>
      getPathLength gr4 (0, 0) (3, 3) = 6 \<and> hasPath gr4 (0, 0) (3, 3)"
  proof
    assume "length gr4 = 4 \<and> (\<forall>row\<in>set gr4. length row = 4 \<and> 1 \<notin> set row)"
    then have "length (findPath gr4 (0, 0) (3, 3)) = 7" by (intro free4_length) simp_all
    then show "getPathLength gr4 (0, 0) (3, 3) = 6 \<and> hasPath gr4 (0, 0) (3, 3)"
      by (auto simp add: getPathLength_def hasPath_def Let_def)
  qed
  from 1 2 3 4 5 show ?thesis by blast
qed

text \<open>The theorem on the 3 by 3 grid with the obstacle in the middle, and on the empty 4 by 4 grid.\<close>

theorem findPath_shortest_route_witness:
  "route grid3 (0, 0) (2, 2) [(0, 0), (1, 0), (2, 0), (2, 1), (2, 2)] \<and>
   route grid3 (0, 0) (2, 2) (findPath grid3 (0, 0) (2, 2)) \<and>
   length (findPath grid3 (0, 0) (2, 2)) \<le> 5 \<and>
   getPathLength grid4 (0, 0) (3, 3) = 6 \<and> hasPath grid4 (0, 0) (3, 3)"
proof -
  have r: "route grid3 (0, 0) (2, 2) [(0, 0), (1, 0), (2, 0), (2, 1), (2, 2)]"
    by (simp add: route_def grid3_def isWalkable_def cell_def isValidMove_def)
  have g: "length grid4 = 4 \<and> (\<forall>row\<in>set grid4. length row = 4 \<and> 1 \<notin> set row)"
    by (simp add: grid4_def)
  from findPath_shortest_route [of grid3 "(0, 0)" "(2, 2)" grid4] r g
  have "route grid3 (0, 0) (2, 2) (findPath grid3 (0, 0) (2, 2))"
    and "\<forall>q. route grid3 (0, 0) (2, 2) q \<longrightarrow> length (findPath grid3 (0, 0) (2, 2)) \<le> length q"
    and "getPathLength grid4 (0, 0) (3, 3) = 6 \<and> hasPath grid4 (0, 0) (3, 3)"
    by blast+
  with r show ?thesis by fastforce
qed

section \<open>Grid generation\<close>

declare generateGrid_loop.simps [simp del]

lemma count_list_update:
  "i < length xs \<Longrightarrow>
   count_list (xs[i := v]) c + (if xs ! i = c then 1 else 0) =
   count_list xs c + (if v = c then 1 else 0)"
proof (induction xs arbitrary: i)
  case Nil
  then show ?case by simp
next
  case (Cons a xs)
  show ?case
  proof (cases i)
    case 0
    then show ?thesis by simp
  next
    case (Suc j)
    with Cons.prems have "j < length xs" by simp
    from Cons.IH [OF this] Suc show ?thesis by (auto split: if_splits)
  qed
qed

lemma sum_list_map_update:
  fixes f :: "'a \<Rightarrow> nat"
  shows "i < length xs \<Longrightarrow> sum_list (map f (xs[i := r])) + f (xs ! i) = sum_list (map f xs) + f r"
proof (induction xs arbitrary: i)
  case Nil
  then show ?case by simp
next
  case (Cons a xs)
  show ?case
  proof (cases i)
    case 0
    then show ?thesis by simp
  next
    case (Suc j)
    with Cons.prems have "j < length xs" by simp
    from Cons.IH [OF this] Suc show ?thesis by simp
  qed
qed

lemma setCell_in_range:
  assumes "0 \<le> y" "nat y < length gr" "0 \<le> x" "nat x < length (gr ! nat y)"
  shows "setCell gr x y v = gr[nat y := (gr ! nat y)[nat x := v]]"
  using assms by (simp add: setCell_def)

lemma cell_Some:
  "cell gr x y = Some c \<longleftrightarrow> 0 \<le> x \<and> nat x < length (gr ! nat y) \<and> gr ! nat y ! nat x = c"
  by (auto simp: cell_def Let_def)

lemma length_setCell [simp]: "length (setCell gr x y v) = length gr"
  by (simp add: setCell_def Let_def)

lemma setCell_rows:
  assumes "0 \<le> y" "nat y < length gr" "0 \<le> x" "nat x < length (gr ! nat y)"
    and "\<forall>row\<in>set gr. length row = c"
  shows "\<forall>row\<in>set (setCell gr x y v). length row = c"
proof
  fix row assume "row \<in> set (setCell gr x y v)"
  then have "row \<in> insert ((gr ! nat y)[nat x := v]) (set gr)"
    unfolding setCell_in_range [OF assms(1-4)] using set_update_subset_insert by fastforce
  moreover have "gr ! nat y \<in> set gr" using assms(2) by simp
  ultimately show "length row = c" using assms(5) by auto
qed

lemma cell_setCell:
  assumes "0 \<le> y" "nat y < length gr" "0 \<le> x" "nat x < length (gr ! nat y)"
    and "0 \<le> y'" "nat y' < length gr"
  shows "cell (setCell gr x y v) x' y' = (if x' = x \<and> y' = y then Some v else cell gr x' y')"
proof (cases "y' = y")
  case True
  show ?thesis
  proof (cases "x' = x")
    case True
    with \<open>y' = y\<close> assms show ?thesis
      by (simp add: setCell_in_range cell_def)
  next
    case False
    then have "0 \<le> x' \<Longrightarrow> nat x' \<noteq> nat x" using assms(3) by simp
    with \<open>y' = y\<close> False assms show ?thesis
      by (auto simp add: setCell_in_range cell_def Let_def)
  qed
next
  case False
  with assms(1,5) have "nat y' \<noteq> nat y" by simp
  with False assms show ?thesis
    by (simp add: setCell_in_range cell_def)
qed

lemma setCell_revert:
  assumes "0 \<le> y" "nat y < length gr" "cell gr x y = Some c"
  shows "setCell (setCell gr x y v) x y c = gr"
proof -
  from assms(3) have x: "0 \<le> x" "nat x < length (gr ! nat y)" and c: "gr ! nat y ! nat x = c"
    by (simp_all add: cell_Some)
  have 1: "setCell gr x y v = gr[nat y := (gr ! nat y)[nat x := v]]"
    by (rule setCell_in_range [OF assms(1,2) x])
  have "setCell (gr[nat y := (gr ! nat y)[nat x := v]]) x y c
        = (gr[nat y := (gr ! nat y)[nat x := v]])[nat y := ((gr[nat y := (gr ! nat y)[nat x := v]]) ! nat y)[nat x := c]]"
    by (rule setCell_in_range) (use assms x in simp_all)
  also have "\<dots> = gr[nat y := ((gr ! nat y)[nat x := v])[nat x := c]]"
    using assms(2) by simp
  also have "((gr ! nat y)[nat x := v])[nat x := c] = (gr ! nat y)[nat x := c]"
    by simp
  also have "(gr ! nat y)[nat x := c] = gr ! nat y"
    using c x(2) by (simp add: list_update_same_conv)
  also have "gr[nat y := gr ! nat y] = gr" by simp
  finally show ?thesis unfolding 1 .
qed

lemma obstacles_setCell:
  assumes "0 \<le> y" "nat y < length gr" "cell gr x y = Some 0"
  shows "obstacles (setCell gr x y 1) = obstacles gr + 1"
proof -
  from assms(3) have x: "0 \<le> x" "nat x < length (gr ! nat y)" and c: "gr ! nat y ! nat x = 0"
    by (simp_all add: cell_Some)
  let ?row = "gr ! nat y"
  from count_list_update [OF x(2), of 1 1] c
  have r: "count_list (?row[nat x := 1]) 1 = count_list ?row 1 + 1" by simp
  from sum_list_map_update [OF assms(2), of "\<lambda>row. count_list row 1" "?row[nat x := 1]"] r
  show ?thesis
    unfolding obstacles_def setCell_in_range [OF assms(1,2) x] by simp
qed

lemma random_index:
  fixes r :: rat
  assumes "0 \<le> r" "r < 1" "0 < n"
  shows "0 \<le> \<lfloor>r * of_int n\<rfloor>" and "\<lfloor>r * of_int n\<rfloor> < n"
proof -
  from assms have "0 \<le> r * of_int n" by simp
  then show "0 \<le> \<lfloor>r * of_int n\<rfloor>" by simp
  from assms have "r * of_int n < 1 * of_int n"
    by (intro mult_strict_right_mono) simp_all
  then show "\<lfloor>r * of_int n\<rfloor> < n" by (simp add: floor_less_iff)
qed

lemma free_route:
  assumes "length gr = r" "\<forall>row\<in>set gr. length row = c \<and> 1 \<notin> set row" "0 < r" "0 < c"
  shows "\<exists>q. route gr (0, 0) (int c - 1, int r - 1) q"
proof -
  have w: "isWalkable gr x y" if "0 \<le> x" "x < int c" "0 \<le> y" "y < int r" for x y
    using isWalkable_free [OF assms(1,2) that] .
  have A: "a < c \<Longrightarrow> \<exists>q. route gr (0, 0) (int a, 0) q" for a
  proof (induction a)
    case 0
    have "route gr (0, 0) (0, 0) [(0, 0)]"
      using w [of 0 0] assms(3,4) by (simp add: route_def)
    then show ?case by auto
  next
    case (Suc a)
    then obtain q where q: "route gr (0, 0) (int a, 0) q" by auto
    have "route gr (0, 0) (int (Suc a), 0) (q @ [(int (Suc a), 0)])"
    proof (rule route_snoc [OF q])
      show "isWalkable gr (fst (int (Suc a), 0 :: int)) (snd (int (Suc a), 0 :: int))"
        using w [of "int (Suc a)" 0] Suc.prems assms(3) by simp
      show "isValidMove (int a, 0) (int (Suc a), 0)"
        by (simp add: isValidMove_def)
    qed
    then show ?case by blast
  qed
  have B: "b < r \<Longrightarrow> \<exists>q. route gr (0, 0) (int c - 1, int b) q" for b
  proof (induction b)
    case 0
    from A [of "c - 1"] assms(4) show ?case by (simp add: of_nat_diff)
  next
    case (Suc b)
    then obtain q where q: "route gr (0, 0) (int c - 1, int b) q" by auto
    have "route gr (0, 0) (int c - 1, int (Suc b)) (q @ [(int c - 1, int (Suc b))])"
    proof (rule route_snoc [OF q])
      show "isWalkable gr (fst (int c - 1, int (Suc b))) (snd (int c - 1, int (Suc b)))"
        using w [of "int c - 1" "int (Suc b)"] Suc.prems assms(4) by simp
      show "isValidMove (int c - 1, int b) (int c - 1, int (Suc b))"
        by (simp add: isValidMove_def)
    qed
    then show ?case by blast
  qed
  from B [of "r - 1"] assms(3) show ?thesis by (simp add: of_nat_diff)
qed

lemma hasPath_iff_route: "hasPath gr s e \<longleftrightarrow> (\<exists>q. route gr s e q)"
proof
  assume "hasPath gr s e"
  then have "findPath gr s e \<noteq> []" by (simp add: hasPath_def)
  with findPath_correct [of gr s e] show "\<exists>q. route gr s e q" by (auto split: if_splits)
next
  assume ex: "\<exists>q. route gr s e q"
  with findPath_correct [of gr s e] have "route gr s e (findPath gr s e)" by simp
  then have "findPath gr s e \<noteq> []" by (auto simp: route_def)
  then show "hasPath gr s e" by (simp add: hasPath_def)
qed

lemma setCell_no_obstacle:
  assumes "0 \<le> y" "nat y < length gr" "0 \<le> x" "nat x < length (gr ! nat y)"
    and "\<forall>row\<in>set gr. length row = c \<and> 1 \<notin> set row" and "v \<noteq> 1"
  shows "\<forall>row\<in>set (setCell gr x y v). length row = c \<and> 1 \<notin> set row"
proof
  fix row assume "row \<in> set (setCell gr x y v)"
  then have "row \<in> insert ((gr ! nat y)[nat x := v]) (set gr)"
    unfolding setCell_in_range [OF assms(1-4)] using set_update_subset_insert by fastforce
  moreover have r: "gr ! nat y \<in> set gr" using assms(2) by simp
  moreover have "1 \<notin> set ((gr ! nat y)[nat x := v])"
    using set_update_subset_insert [of "gr ! nat y" "nat x" v] assms(5,6) r by auto
  ultimately show "length row = c \<and> 1 \<notin> set row" using assms(5) by auto
qed

lemma no_obstacle_cell:
  assumes "\<forall>row\<in>set gr. 1 \<notin> set row" "nat y < length gr"
  shows "cell gr x y \<noteq> Some 1"
proof
  assume "cell gr x y = Some 1"
  then have "nat x < length (gr ! nat y)" "gr ! nat y ! nat x = 1" by (simp_all add: cell_Some)
  then have "1 \<in> set (gr ! nat y)" by (metis nth_mem)
  moreover have "gr ! nat y \<in> set gr" using assms(2) by simp
  ultimately show False using assms(1) by blast
qed

lemma no_obstacle_count:
  assumes "\<forall>row\<in>set gr. 1 \<notin> set row"
  shows "obstacles gr = 0"
  using assms by (induction gr) (simp_all add: obstacles_def)

lemma gridOk_init:
  assumes "2 \<le> rows" "2 \<le> cols"
  defines "grid0 \<equiv> replicate (nat rows) (replicate (nat cols) (0::int))"
  defines "grid1 \<equiv> setCell grid0 0 0 2"
  defines "grid2 \<equiv> setCell grid1 (cols - 1) (rows - 1) 3"
  shows "gridOk rows cols grid2" and "obstacles grid2 = 0"
proof -
  have l0: "length grid0 = nat rows" by (simp add: grid0_def)
  have r0: "\<forall>row\<in>set grid0. length row = nat cols \<and> 1 \<notin> set row" by (auto simp: grid0_def)
  have in0: "nat (0::int) < length grid0" "nat (0::int) < length (grid0 ! nat 0)"
    using assms(1,2) by (simp_all add: grid0_def)
  have l1: "length grid1 = nat rows" by (simp add: grid1_def l0)
  have r1: "\<forall>row\<in>set grid1. length row = nat cols \<and> 1 \<notin> set row"
    unfolding grid1_def by (rule setCell_no_obstacle [OF _ in0(1) _ in0(2) r0]) simp_all
  have y1: "nat (rows - 1) < length grid1" using assms(1) by (simp add: l1)
  then have "grid1 ! nat (rows - 1) \<in> set grid1" by simp
  with r1 have "length (grid1 ! nat (rows - 1)) = nat cols" by blast
  then have x1: "nat (cols - 1) < length (grid1 ! nat (rows - 1))" using assms(2) by simp
  have l2: "length grid2 = nat rows" by (simp add: grid2_def l1)
  have r2: "\<forall>row\<in>set grid2. length row = nat cols \<and> 1 \<notin> set row"
    unfolding grid2_def by (rule setCell_no_obstacle [OF _ y1 _ x1 r1]) (use assms in simp_all)
  have c1: "cell grid1 0 0 = Some 2"
    unfolding grid1_def using cell_setCell [OF _ in0(1) _ in0(2) _ in0(1), of 2 0] by simp
  have "nat (0::int) < length grid1" using in0(1) by (simp add: l1 l0)
  from cell_setCell [OF _ y1 _ x1 _ this, of 3 0] assms c1
  have c20: "cell grid2 0 0 = Some 2" by (simp add: grid2_def)
  from cell_setCell [OF _ y1 _ x1 _ y1, of 3 "cols - 1"] assms
  have c2e: "cell grid2 (cols - 1) (rows - 1) = Some 3" by (simp add: grid2_def)
  have free: "cell grid2 x y \<noteq> Some 1" if "0 \<le> y" "y < rows" for x y
    by (rule no_obstacle_cell) (use r2 that l2 in auto)
  from free_route [OF l2 r2] assms
  have "\<exists>q. route grid2 (0, 0) (cols - 1, rows - 1) q" by simp
  then have hp: "hasPath grid2 (0, 0) (cols - 1, rows - 1)" by (simp add: hasPath_iff_route)
  from l2 r2 c20 c2e free hp show "gridOk rows cols grid2"
    unfolding gridOk_def by blast
  from r2 show "obstacles grid2 = 0" by (intro no_obstacle_count) blast
qed

lemma gridOk_place:
  assumes ok: "gridOk rows cols gr" and y: "0 \<le> y" "y < rows" and c: "cell gr x y = Some 0"
    and buf: "\<not> ((x \<le> 1 \<and> y \<le> 1) \<or> (cols - 2 \<le> x \<and> rows - 2 \<le> y))"
    and hp: "hasPath (setCell gr x y 1) (0, 0) (cols - 1, rows - 1)"
  shows "gridOk rows cols (setCell gr x y 1)"
proof -
  from ok have l: "length gr = nat rows" and r: "\<forall>row\<in>set gr. length row = nat cols"
    and c0: "cell gr 0 0 = Some 2" and ce: "cell gr (cols - 1) (rows - 1) = Some 3"
    and ob: "\<forall>x y. 0 \<le> y \<and> y < rows \<and> cell gr x y = Some 1 \<longrightarrow>
        \<not> (x \<le> 1 \<and> y \<le> 1) \<and> \<not> (cols - 2 \<le> x \<and> rows - 2 \<le> y)"
    unfolding gridOk_def by blast+
  from y l have yl: "nat y < length gr" by simp
  from c have x: "0 \<le> x" "nat x < length (gr ! nat y)" by (simp_all add: cell_Some)
  note cs = cell_setCell [OF y(1) yl x]
  from y have rows: "0 < rows" by simp
  have 1: "length (setCell gr x y 1) = nat rows" by (simp add: l)
  have 2: "\<forall>row\<in>set (setCell gr x y 1). length row = nat cols"
    by (rule setCell_rows [OF y(1) yl x r])
  have 3: "cell (setCell gr x y 1) 0 0 = Some 2"
    using cs [of 0 1 0] c c0 rows l by auto
  have 4: "cell (setCell gr x y 1) (cols - 1) (rows - 1) = Some 3"
    using cs [of "rows - 1" 1 "cols - 1"] c ce rows l by auto
  have 5: "\<forall>x' y'. 0 \<le> y' \<and> y' < rows \<and> cell (setCell gr x y 1) x' y' = Some 1 \<longrightarrow>
        \<not> (x' \<le> 1 \<and> y' \<le> 1) \<and> \<not> (cols - 2 \<le> x' \<and> rows - 2 \<le> y')"
  proof (intro allI impI)
    fix x' y'
    assume a: "0 \<le> y' \<and> y' < rows \<and> cell (setCell gr x y 1) x' y' = Some 1"
    then have "nat y' < length gr" using l by simp
    from cs [OF _ this, of 1 x'] a
    have "(x' = x \<and> y' = y) \<or> cell gr x' y' = Some 1" by (simp split: if_splits)
    with buf ob a show "\<not> (x' \<le> 1 \<and> y' \<le> 1) \<and> \<not> (cols - 2 \<le> x' \<and> rows - 2 \<le> y')"
      by blast
  qed
  from 1 2 3 4 5 hp show ?thesis unfolding gridOk_def by blast
qed

lemma generateGrid_loop_inv:
  assumes rnd: "\<forall>i. 0 \<le> rnd i \<and> rnd i < 1" and rows: "2 \<le> rows" and cols: "2 \<le> cols"
  shows "gridOk rows cols gr \<Longrightarrow> int (obstacles gr) = placed \<Longrightarrow> placed \<le> n \<Longrightarrow> attempts \<le> m \<Longrightarrow>
     \<exists>gr' placed' attempts' k'.
        generateGrid_loop rnd rows cols n m gr placed attempts k = Inr (gr', placed', attempts', k') \<and>
        gridOk rows cols gr' \<and> int (obstacles gr') = placed' \<and> placed' \<le> n \<and>
        attempts \<le> attempts' \<and> attempts' \<le> m \<and> int k' = int k + 2 * (attempts' - attempts)"
  using rnd rows cols
proof (induction rnd rows cols n m gr placed attempts k rule: generateGrid_loop.induct)
  case (1 rnd rows cols n m gr placed attempts k)
  note ok = "1.prems"(1) and ob = "1.prems"(2) and pl = "1.prems"(3) and at = "1.prems"(4)
    and rnd = "1.prems"(5) and rows = "1.prems"(6) and cols = "1.prems"(7)
  show ?case
  proof (cases "placed < n \<and> attempts < m")
    case False
    then have "generateGrid_loop rnd rows cols n m gr placed attempts k = Inr (gr, placed, attempts, k)"
      by (subst generateGrid_loop.simps) auto
    with ok ob pl at show ?thesis by simp
  next
    case True
    note go = this
    let ?x = "\<lfloor>rnd k * of_int cols\<rfloor>"
    let ?y = "\<lfloor>rnd (k + 1) * of_int rows\<rfloor>"
    from rnd rows cols have y: "0 \<le> ?y" "?y < rows"
      by (simp_all add: random_index)
    from ok have l: "length gr = nat rows" unfolding gridOk_def by blast
    from y l rows have inr: "\<not> (?y < 0 \<or> int (length gr) \<le> ?y)" by simp
    from go have at1: "attempts + 1 \<le> m" by simp
    have step: "\<exists>gr' placed' attempts' k'.
        generateGrid_loop rnd rows cols n m gr placed attempts k = Inr (gr', placed', attempts', k') \<and>
        gridOk rows cols gr' \<and> int (obstacles gr') = placed' \<and> placed' \<le> n \<and>
        attempts \<le> attempts' \<and> attempts' \<le> m \<and> int k' = int k + 2 * (attempts' - attempts)"
      if eq: "generateGrid_loop rnd rows cols n m gr placed attempts k =
              generateGrid_loop rnd rows cols n m g2 p2 (attempts + 1) (k + 2)"
        and ih: "\<exists>gr' placed' attempts' k'.
          generateGrid_loop rnd rows cols n m g2 p2 (attempts + 1) (k + 2) = Inr (gr', placed', attempts', k') \<and>
          gridOk rows cols gr' \<and> int (obstacles gr') = placed' \<and> placed' \<le> n \<and>
          attempts + 1 \<le> attempts' \<and> attempts' \<le> m \<and> int k' = int (k + 2) + 2 * (attempts' - (attempts + 1))"
      for g2 p2
    proof -
      from ih obtain gr' placed' attempts' k' where
        r: "generateGrid_loop rnd rows cols n m g2 p2 (attempts + 1) (k + 2) = Inr (gr', placed', attempts', k')"
        and p: "gridOk rows cols gr'" "int (obstacles gr') = placed'" "placed' \<le> n"
          "attempts + 1 \<le> attempts'" "attempts' \<le> m"
          "int k' = int (k + 2) + 2 * (attempts' - (attempts + 1))"
        by blast
      from p(4) have "attempts \<le> attempts'" by simp
      moreover from p(6) have "int k' = int k + 2 * (attempts' - attempts)" by simp
      ultimately show ?thesis using r p(1,2,3,5) unfolding eq by blast
    qed
    show ?thesis
    proof (cases "cell gr ?x ?y \<noteq> Some 0")
      case True
      from go inr True have eq: "generateGrid_loop rnd rows cols n m gr placed attempts k =
              generateGrid_loop rnd rows cols n m gr placed (attempts + 1) (k + 2)"
        by (subst generateGrid_loop.simps) (auto simp add: Let_def)
      show ?thesis
        by (rule step [OF eq]) (rule "1.IH"(1) [OF go refl refl inr True ok ob pl at1 rnd rows cols])
    next
      case False
      note c0 = this
      then have c: "cell gr ?x ?y = Some 0" by simp
      show ?thesis
      proof (cases "(?x \<le> 1 \<and> ?y \<le> 1) \<or> (cols - 2 \<le> ?x \<and> rows - 2 \<le> ?y)")
        case True
        from go inr c True have eq: "generateGrid_loop rnd rows cols n m gr placed attempts k =
              generateGrid_loop rnd rows cols n m gr placed (attempts + 1) (k + 2)"
          by (subst generateGrid_loop.simps) (auto simp add: Let_def)
        show ?thesis
          by (rule step [OF eq]) (rule "1.IH"(2) [OF go refl refl inr c0 True ok ob pl at1 rnd rows cols])
      next
        case False
        note nb = this
        let ?g1 = "setCell gr ?x ?y 1"
        from y l rows have yl: "nat ?y < length gr" by simp
        show ?thesis
        proof (cases "hasPath ?g1 (0, 0) (cols - 1, rows - 1)")
          case True
          from go inr c nb True have eq: "generateGrid_loop rnd rows cols n m gr placed attempts k =
              generateGrid_loop rnd rows cols n m ?g1 (placed + 1) (attempts + 1) (k + 2)"
            by (subst generateGrid_loop.simps) (auto simp add: Let_def)
          have ok1: "gridOk rows cols ?g1"
            by (rule gridOk_place [OF ok y c nb True])
          have ob1: "int (obstacles ?g1) = placed + 1"
            using obstacles_setCell [OF y(1) yl c] ob by simp
          from go have pl1: "placed + 1 \<le> n" by simp
          show ?thesis
            by (rule step [OF eq])
               (rule "1.IH"(3) [OF go refl refl inr c0 nb refl True ok1 ob1 pl1 at1 rnd rows cols])
        next
          case False
          have rev: "setCell ?g1 ?x ?y 0 = gr"
            by (rule setCell_revert [OF y(1) yl c])
          from go inr c nb False have eq: "generateGrid_loop rnd rows cols n m gr placed attempts k =
              generateGrid_loop rnd rows cols n m (setCell ?g1 ?x ?y 0) placed (attempts + 1) (k + 2)"
            by (subst generateGrid_loop.simps) (auto simp add: Let_def)
          have ok2: "gridOk rows cols (setCell ?g1 ?x ?y 0)" and ob2: "int (obstacles (setCell ?g1 ?x ?y 0)) = placed"
            unfolding rev using ok ob by simp_all
          show ?thesis
            by (rule step [OF eq])
               (rule "1.IH"(4) [OF go refl refl inr c0 nb refl False ok2 ob2 pl at1 rnd rows cols])
        qed
      qed
    qed
  qed
qed

text \<open>
  Claim C3. For at least two rows and two columns, a target \<open>n \<ge> 0\<close> and random numbers in
  [0, 1), \<^verbatim>\<open>generateGrid\<close> returns after at most \<open>10 n\<close> attempts (two random numbers
  each) a grid with that many rows and columns in which (0,0) holds the start mark 2 and
  (cols-1, rows-1) the end mark 3, the number of obstacle cells is the number placed and at
  most \<open>n\<close>, no obstacle has \<open>x \<le> 1\<close> and \<open>y \<le> 1\<close> or \<open>x \<ge> cols - 2\<close> and
  \<open>y \<ge> rows - 2\<close>, and \<^verbatim>\<open>hasPath\<close> from start to end is true.
\<close>

theorem generateGrid_solvable:
  assumes "2 \<le> rows" and "2 \<le> cols" and "0 \<le> n" and "\<forall>i. 0 \<le> rnd i \<and> rnd i < 1"
  shows "\<exists>gr placed attempts k'.
      generateGrid_loop rnd rows cols n (n * 10) (initialGrid rows cols) 0 0 k
        = Inr (gr, placed, attempts, k') \<and>
      generateGrid rnd rows cols n k = Inr (gr, k') \<and>
      attempts \<le> 10 * n \<and> int k' = int k + 2 * attempts \<and>
      length gr = nat rows \<and> (\<forall>row\<in>set gr. length row = nat cols) \<and>
      cell gr 0 0 = Some 2 \<and> cell gr (cols - 1) (rows - 1) = Some 3 \<and>
      int (obstacles gr) = placed \<and> placed \<le> n \<and>
      (\<forall>x y. 0 \<le> y \<and> y < rows \<and> cell gr x y = Some 1 \<longrightarrow>
         \<not> (x \<le> 1 \<and> y \<le> 1) \<and> \<not> (cols - 2 \<le> x \<and> rows - 2 \<le> y)) \<and>
      hasPath gr (0, 0) (cols - 1, rows - 1)"
proof -
  from gridOk_init [OF assms(1,2)]
  have ok: "gridOk rows cols (initialGrid rows cols)" and ob: "int (obstacles (initialGrid rows cols)) = 0"
    by (simp_all add: initialGrid_def Let_def)
  from assms(3) have m: "(0::int) \<le> n * 10" by simp
  from generateGrid_loop_inv [OF assms(4,1,2) ok ob assms(3) m, of k]
  obtain gr placed attempts k' where
    r: "generateGrid_loop rnd rows cols n (n * 10) (initialGrid rows cols) 0 0 k = Inr (gr, placed, attempts, k')"
    and p: "gridOk rows cols gr" "int (obstacles gr) = placed" "placed \<le> n" "attempts \<le> n * 10"
      "int k' = int k + 2 * (attempts - 0)"
    by blast
  from r assms(1,2) have g: "generateGrid rnd rows cols n k = Inr (gr, k')"
    by (simp add: generateGrid_def Let_def)
  from p(1) have q: "length gr = nat rows" "\<forall>row\<in>set gr. length row = nat cols"
    "cell gr 0 0 = Some 2" "cell gr (cols - 1) (rows - 1) = Some 3"
    "\<forall>x y. 0 \<le> y \<and> y < rows \<and> cell gr x y = Some 1 \<longrightarrow>
         \<not> (x \<le> 1 \<and> y \<le> 1) \<and> \<not> (cols - 2 \<le> x \<and> rows - 2 \<le> y)"
    "hasPath gr (0, 0) (cols - 1, rows - 1)"
    unfolding gridOk_def by blast+
  from p(4) have a: "attempts \<le> 10 * n" by simp
  from p(5) have kk: "int k' = int k + 2 * attempts" by simp
  show ?thesis
    by (intro exI [of _ gr] exI [of _ placed] exI [of _ attempts] exI [of _ k'] conjI
          r g a kk q p(2) p(3))
qed

lemma halves_range: "\<forall>i. 0 \<le> halves i \<and> halves i < 1"
  by (simp add: halves_def)

text \<open>The theorem for a 4 by 4 grid, two obstacles wanted, and random numbers 1/2, 1/4, 1/2, \<dots>\<close>

theorem generateGrid_solvable_witness:
  "\<exists>gr k'. generateGrid halves 4 4 2 0 = Inr (gr, k') \<and> k' \<le> 40 \<and> length gr = 4 \<and>
     cell gr 0 0 = Some 2 \<and> cell gr 3 3 = Some 3 \<and> obstacles gr \<le> 2 \<and>
     hasPath gr (0, 0) (3, 3)"
proof -
  from generateGrid_solvable [of 4 4 2 halves 0] halves_range
  obtain gr placed attempts k' where
    "generateGrid halves 4 4 2 0 = Inr (gr, k')" "attempts \<le> 10 * 2" "int k' = int 0 + 2 * attempts"
    "length gr = nat 4" "cell gr 0 0 = Some 2" "cell gr (4 - 1) (4 - 1) = Some 3"
    "int (obstacles gr) = placed" "placed \<le> 2" "hasPath gr (0, 0) (4 - 1, 4 - 1)"
    by auto
  then show ?thesis
    by (intro exI [of _ gr] exI [of _ k']) simp
qed


section \<open>Properties of the move pipeline\<close>

lemma pm_no_state:
  "map_of (activeGames w) gid = None \<Longrightarrow> processMove w now gid b p = (Inl GameStateNotFound, w)"
  by (simp add: processMove_def)

lemma pm_not_live:
  "map_of (activeGames w) gid = Some gs \<Longrightarrow> map_of (botPositions gs) b = None \<Longrightarrow>
   processMove w now gid b p = (Inl BotNotActive, w)"
  by (simp add: processMove_def)

lemma pm_finished:
  "map_of (activeGames w) gid = Some gs \<Longrightarrow> map_of (botPositions gs) b = Some cur \<Longrightarrow>
   map_of (botFinishTimes gs) b = Some t \<Longrightarrow>
   processMove w now gid b p = (Inl AlreadyFinished, w)"
  by (simp add: processMove_def)

lemma pm_not_adjacent:
  "map_of (activeGames w) gid = Some gs \<Longrightarrow> map_of (botPositions gs) b = Some cur \<Longrightarrow>
   map_of (botFinishTimes gs) b = None \<Longrightarrow> \<not> isValidMove (numbers cur) (numbers p) \<Longrightarrow>
   processMove w now gid b p = (Inl InvalidMove, w)"
  by (simp add: processMove_def)

lemma pm_no_rows:
  "map_of (activeGames w) gid = Some gs \<Longrightarrow> map_of (botPositions gs) b = Some cur \<Longrightarrow>
   map_of (botFinishTimes gs) b = None \<Longrightarrow> isValidMove (numbers cur) (numbers p) \<Longrightarrow>
   grid gs = [] \<Longrightarrow>
   processMove w now gid b p = (Inl TypeError, w)"
  by (simp add: processMove_def)

lemma pm_out_of_bounds:
  "map_of (activeGames w) gid = Some gs \<Longrightarrow> map_of (botPositions gs) b = Some cur \<Longrightarrow>
   map_of (botFinishTimes gs) b = None \<Longrightarrow> isValidMove (numbers cur) (numbers p) \<Longrightarrow>
   grid gs \<noteq> [] \<Longrightarrow>
   checkBoundaryCollision (numbers p) (int (length (grid gs)), int (length (grid gs ! 0))) \<Longrightarrow>
   processMove w now gid b p = (Inl OutOfBounds, w)"
  by (cases "grid gs") (simp_all add: processMove_def)


lemma pm_key_error:
  assumes "map_of (activeGames w) gid = Some gs" "map_of (botPositions gs) b = Some cur"
    "map_of (botFinishTimes gs) b = None" "isValidMove (numbers cur) (numbers p)" "grid gs \<noteq> []"
    "\<not> checkBoundaryCollision (numbers p) (int (length (grid gs)), int (length (grid gs ! 0)))"
    "findById w gid = Some game" "checkObstacleCollision (grid gs) p = Inl e"
  shows "processMove w now gid b p =
     (Inl e,
      w\<lparr>activeGames := AList.update gid
           (gs\<lparr>moveCounters := AList.update b (nextMoveNumber gs b) (moveCounters gs)\<rparr>) (activeGames w)\<rparr>)"
  using assms
  by (cases "grid gs") (simp_all add: processMove_def Let_def nextMoveNumber_def)

lemma pm_collision_no_row:
  assumes "map_of (activeGames w) gid = Some gs" "map_of (botPositions gs) b = Some cur"
    "map_of (botFinishTimes gs) b = None" "isValidMove (numbers cur) (numbers p)" "grid gs \<noteq> []"
    "\<not> checkBoundaryCollision (numbers p) (int (length (grid gs)), int (length (grid gs ! 0)))"
    "findById w gid = Some game" "checkObstacleCollision (grid gs) p = Inr True"
    "findBotGame w b gid = None"
  shows "processMove w now gid b p =
     (Inl NotParticipant,
      w\<lparr>activeGames := AList.update gid
           (gs\<lparr>moveCounters := AList.update b (nextMoveNumber gs b) (moveCounters gs)\<rparr>) (activeGames w)\<rparr>)"
  using assms
  by (cases "grid gs")
     (simp_all add: processMove_def Let_def handleCollision_def findBotGame_def nextMoveNumber_def)

lemma pm_collision:
  assumes "map_of (activeGames w) gid = Some gs" "map_of (botPositions gs) b = Some cur"
    "map_of (botFinishTimes gs) b = None" "isValidMove (numbers cur) (numbers p)" "grid gs \<noteq> []"
    "\<not> checkBoundaryCollision (numbers p) (int (length (grid gs)), int (length (grid gs ! 0)))"
    "findById w gid = Some game" "checkObstacleCollision (grid gs) p = Inr True"
    "findBotGame w b gid = Some r"
  shows "processMove w now gid b p =
     (Inr (Collided COLLISION_PENALTY_SECONDS (collisions r + 1) cur (nextMoveNumber gs b)),
      w\<lparr>activeGames := AList.update gid
           (gs\<lparr>moveCounters := AList.update b (nextMoveNumber gs b) (moveCounters gs)\<rparr>) (activeGames w),
        botGames := map (\<lambda>q. if bg_id q = bg_id r then q\<lparr>collisions := collisions q + 1\<rparr> else q)
           (botGames w),
        moves := moves w @
           [\<lparr>mv_gameId = gid, mv_botId = b, mv_level = currentLevel game,
             fromX = fst cur, fromY = snd cur, toX = fst p, toY = snd p,
             moveNumber = nextMoveNumber gs b, isCollision = True\<rparr>]\<rparr>)"
  using assms
  by (cases "grid gs")
     (simp_all add: processMove_def Let_def handleCollision_def findBotGame_def nextMoveNumber_def
        updateBotGame_def)

lemma pm_blocked:
  assumes "map_of (activeGames w) gid = Some gs" "map_of (botPositions gs) b = Some cur"
    "map_of (botFinishTimes gs) b = None" "isValidMove (numbers cur) (numbers p)" "grid gs \<noteq> []"
    "\<not> checkBoundaryCollision (numbers p) (int (length (grid gs)), int (length (grid gs ! 0)))"
    "findById w gid = Some game" "checkObstacleCollision (grid gs) p = Inr False"
    "checkBotCollision (filter (\<lambda>e. map_of (botFinishTimes gs) (fst e) = None) (botPositions gs)) b p
       = Some blocker" "blocker \<noteq> []"
  shows "processMove w now gid b p =
     (Inr (Blocked blocker cur (nextMoveNumber gs b)),
      w\<lparr>activeGames := AList.update gid
           (gs\<lparr>moveCounters := AList.update b (nextMoveNumber gs b) (moveCounters gs)\<rparr>) (activeGames w)\<rparr>)"
  using assms
  by (cases "grid gs") (simp_all add: processMove_def Let_def nextMoveNumber_def truthy_def)

lemma pm_advance:
  assumes "map_of (activeGames w) gid = Some gs" "map_of (botPositions gs) b = Some cur"
    "map_of (botFinishTimes gs) b = None" "isValidMove (numbers cur) (numbers p)" "grid gs \<noteq> []"
    "\<not> checkBoundaryCollision (numbers p) (int (length (grid gs)), int (length (grid gs ! 0)))"
    "findById w gid = Some game" "checkObstacleCollision (grid gs) p = Inr False"
    "\<not> truthy (checkBotCollision
        (filter (\<lambda>e. map_of (botFinishTimes gs) (fst e) = None) (botPositions gs)) b p)"
    "p \<noteq> raw (endPosition gs)"
  shows "processMove w now gid b p =
     (Inr (Advanced p (nextMoveNumber gs b) False None),
      w\<lparr>activeGames := AList.update gid
           (gs\<lparr>moveCounters := AList.update b (nextMoveNumber gs b) (moveCounters gs),
               botPositions := AList.update b p (botPositions gs)\<rparr>) (activeGames w),
        moves := moves w @
           [\<lparr>mv_gameId = gid, mv_botId = b, mv_level = currentLevel game,
             fromX = fst cur, fromY = snd cur, toX = fst p, toY = snd p,
             moveNumber = nextMoveNumber gs b, isCollision = False\<rparr>]\<rparr>)"
  using assms
  by (cases "grid gs") (auto simp add: processMove_def Let_def nextMoveNumber_def prod_eq_iff raw_def)

lemma pm_finish:
  assumes "map_of (activeGames w) gid = Some gs" "map_of (botPositions gs) b = Some cur"
    "map_of (botFinishTimes gs) b = None" "isValidMove (numbers cur) (numbers p)" "grid gs \<noteq> []"
    "\<not> checkBoundaryCollision (numbers p) (int (length (grid gs)), int (length (grid gs ! 0)))"
    "findById w gid = Some game" "checkObstacleCollision (grid gs) p = Inr False"
    "\<not> truthy (checkBotCollision
        (filter (\<lambda>e. map_of (botFinishTimes gs) (fst e) = None) (botPositions gs)) b p)"
    "p = raw (endPosition gs)"
  shows "processMove w now gid b p =
     (Inr (Advanced p (nextMoveNumber gs b) True (Some (now - startTime gs))),
      (case findBotGame w b gid of
         None \<Rightarrow> (\<lambda>v. v)
       | Some r \<Rightarrow> updateBotGame (bg_id r) (setLevelTime (currentLevel game) (now - startTime gs)))
      (w\<lparr>activeGames := AList.update gid
           (gs\<lparr>moveCounters := AList.update b (nextMoveNumber gs b) (moveCounters gs),
               botPositions := AList.update b p (botPositions gs),
               botFinishTimes := AList.update b (now - startTime gs) (botFinishTimes gs)\<rparr>)
           (activeGames w),
        moves := moves w @
           [\<lparr>mv_gameId = gid, mv_botId = b, mv_level = currentLevel game,
             fromX = fst cur, fromY = snd cur, toX = fst p, toY = snd p,
             moveNumber = nextMoveNumber gs b, isCollision = False\<rparr>]\<rparr>))"
  using assms
  by (cases "grid gs")
     (auto simp add: processMove_def Let_def nextMoveNumber_def findBotGame_def updateBotGame_def
        update_conv' raw_def split: option.splits)





text \<open>
  Claim C8. A move for a game without round state, from a bot that is not live or has
  already finished, to a cell that is not one cardinal step away, or to a cell outside the
  grid, is rejected with an error and the world (round state and tables) is returned as
  it was; submitting it again gives the same error and the same world. This holds for
  coordinates submitted as numbers and as strings alike.
\<close>

theorem processMove_rejection_unmutated:
  assumes "map_of (activeGames w) gid = None \<or>
     (\<exists>gs. map_of (activeGames w) gid = Some gs \<and>
        (map_of (botPositions gs) b = None \<or>
         map_of (botFinishTimes gs) b \<noteq> None \<or>
         (\<exists>cur. map_of (botPositions gs) b = Some cur \<and>
            (\<not> isValidMove (numbers cur) (numbers p) \<or> grid gs = [] \<or>
             checkBoundaryCollision (numbers p) (int (length (grid gs)), int (length (grid gs ! 0)))))))"
  shows "\<exists>e. e \<in> {GameStateNotFound, BotNotActive, AlreadyFinished, InvalidMove, OutOfBounds, TypeError} \<and>
           processMove w now gid b p = (Inl e, w) \<and>
           processMove (snd (processMove w now gid b p)) now' gid b p = (Inl e, w)"
proof -
  have "\<exists>e. e \<in> {GameStateNotFound, BotNotActive, AlreadyFinished, InvalidMove, OutOfBounds, TypeError} \<and>
           (\<forall>t. processMove w t gid b p = (Inl e, w))"
  proof (cases "map_of (activeGames w) gid")
    case None
    then show ?thesis by (simp add: pm_no_state)
  next
    case (Some gs)
    note gs = this
    show ?thesis
    proof (cases "map_of (botPositions gs) b")
      case None
      with gs show ?thesis by (simp add: pm_not_live)
    next
      case (Some cur)
      note cur = this
      show ?thesis
      proof (cases "map_of (botFinishTimes gs) b")
        case (Some t)
        with gs cur show ?thesis by (simp add: pm_finished)
      next
        case None
        note unf = this
        show ?thesis
        proof (cases "isValidMove (numbers cur) (numbers p)")
          case False
          with gs cur unf show ?thesis by (simp add: pm_not_adjacent)
        next
          case True
          note adj = this
          show ?thesis
          proof (cases "grid gs = []")
            case True
            with gs cur unf adj show ?thesis by (simp add: pm_no_rows)
          next
            case False
            with assms gs cur unf adj
            have "checkBoundaryCollision (numbers p) (int (length (grid gs)), int (length (grid gs ! 0)))"
              by auto
            with gs cur unf adj False show ?thesis by (simp add: pm_out_of_bounds)
          qed
        qed
      qed
    qed
  qed
  then obtain e where e: "e \<in> {GameStateNotFound, BotNotActive, AlreadyFinished, InvalidMove, OutOfBounds, TypeError}"
    and r: "\<And>t. processMove w t gid b p = (Inl e, w)" by blast
  show ?thesis using e r by auto
qed

text \<open>The theorem at the move of \<open>a\<close> from (0,0) to (2,2), which is not adjacent.\<close>

theorem processMove_rejection_unmutated_witness:
  "\<exists>e. processMove demoWorld 7 ''g1'' ''a'' (Num 2, Num 2) = (Inl e, demoWorld) \<and>
       processMove (snd (processMove demoWorld 7 ''g1'' ''a'' (Num 2, Num 2))) 9 ''g1'' ''a'' (Num 2, Num 2)
         = (Inl e, demoWorld)"
proof -
  have a: "map_of (activeGames demoWorld) ''g1'' = Some demoState"
    by (simp add: demoWorld_def)
  have b: "map_of (botPositions demoState) ''a'' = Some (Num 0, Num 0)"
    by (simp add: demoState_def)
  have c: "\<not> isValidMove (numbers (Num 0, Num 0)) (numbers (Num 2, Num 2))"
    by (simp add: isValidMove_def numbers_def)
  from a b c have h1: "map_of (activeGames demoWorld) ''g1'' = None \<or>
     (\<exists>gs. map_of (activeGames demoWorld) ''g1'' = Some gs \<and>
        (map_of (botPositions gs) ''a'' = None \<or>
         map_of (botFinishTimes gs) ''a'' \<noteq> None \<or>
         (\<exists>cur. map_of (botPositions gs) ''a'' = Some cur \<and>
            (\<not> isValidMove (numbers cur) (numbers (Num 2, Num 2)) \<or> grid gs = [] \<or>
             checkBoundaryCollision (numbers (Num 2, Num 2))
               (int (length (grid gs)), int (length (grid gs ! 0)))))))"
    by simp
  from processMove_rejection_unmutated [OF h1, of 7 9]
  show ?thesis by blast
qed





lemma map_of_update_same: "map_of (AList.update k v al) k = Some v"
  by (simp add: update_conv')

lemma map_of_update_other: "k' \<noteq> k \<Longrightarrow> map_of (AList.update k v al) k' = map_of al k'"
  by (simp add: update_conv')


text \<open>
  Claim C10. Every call that passes the adjacency and boundary checks (for a match whose row
  is found) sets the submitting participant's move counter to its old value (0 if absent)
  plus one, whatever the outcome: collision, blocked, advance, or the error thrown on a
  row key that names no row. The other counters are unchanged. This holds for coordinates
  submitted as numbers and as strings alike.
\<close>

theorem processMove_counts_attempts:
  assumes "map_of (activeGames w) gid = Some gs" and "map_of (botPositions gs) b = Some cur"
    and "map_of (botFinishTimes gs) b = None" and "isValidMove (numbers cur) (numbers p)"
    and "grid gs \<noteq> []"
    and "\<not> checkBoundaryCollision (numbers p) (int (length (grid gs)), int (length (grid gs ! 0)))"
    and "findById w gid = Some game"
  shows "\<exists>gs'. map_of (activeGames (snd (processMove w now gid b p))) gid = Some gs' \<and>
          map_of (moveCounters gs') b =
            Some ((case map_of (moveCounters gs) b of None \<Rightarrow> 0 | Some c \<Rightarrow> c) + 1) \<and>
          (\<forall>b'. b' \<noteq> b \<longrightarrow> map_of (moveCounters gs') b' = map_of (moveCounters gs) b')"
proof -
  have *: "\<exists>gs'. map_of (activeGames (snd (processMove w now gid b p))) gid = Some gs' \<and>
          moveCounters gs' = AList.update b (nextMoveNumber gs b) (moveCounters gs)"
  proof (cases "checkObstacleCollision (grid gs) p")
    case (Inl e)
    show ?thesis
      by (simp add: pm_key_error [OF assms Inl] map_of_update_same)
  next
    case (Inr obstacle)
    show ?thesis
    proof (cases obstacle)
      case True
      with Inr have obst: "checkObstacleCollision (grid gs) p = Inr True" by simp
      show ?thesis
      proof (cases "findBotGame w b gid")
        case None
        show ?thesis
          by (simp add: pm_collision_no_row [OF assms obst None] map_of_update_same)
      next
        case (Some r)
        show ?thesis
          by (simp add: pm_collision [OF assms obst Some] map_of_update_same)
      qed
    next
      case False
      with Inr have free: "checkObstacleCollision (grid gs) p = Inr False" by simp
      let ?c = "checkBotCollision
          (filter (\<lambda>e. map_of (botFinishTimes gs) (fst e) = None) (botPositions gs)) b p"
      show ?thesis
      proof (cases "truthy ?c")
        case True
        then obtain k where k: "?c = Some k" "k \<noteq> []"
          by (auto simp: truthy_def split: option.splits)
        show ?thesis
          by (simp add: pm_blocked [OF assms free k] map_of_update_same)
      next
        case False
        note unblocked = this
        show ?thesis
        proof (cases "p = raw (endPosition gs)")
          case True
          show ?thesis
            by (simp add: pm_finish [OF assms free unblocked True] map_of_update_same
                updateBotGame_def split: option.splits)
        next
          case False
          show ?thesis
            by (simp add: pm_advance [OF assms free unblocked False] map_of_update_same)
        qed
      qed
    qed
  qed
  then show ?thesis
    by (auto simp: nextMoveNumber_def map_of_update_same map_of_update_other)
qed

lemma demo_state: "map_of (activeGames demoWorld) ''g1'' = Some demoState"
  by (simp add: demoWorld_def)

lemma demo_game: "\<exists>game. findById demoWorld ''g1'' = Some game"
  by (simp add: findById_def demoWorld_def demoGame_def)

lemma demo_grid:
  "grid demoState \<noteq> []"
  "int (length (grid demoState)) = 3"
  "int (length (grid demoState ! 0)) = 3"
  by (simp_all add: demoState_def)



text \<open>The theorem at a collision (\<open>b\<close> onto the obstacle) and at a blocked move (\<open>a\<close> onto \<open>b\<close>'s cell).\<close>

theorem processMove_counts_attempts_witness:
  "map_of (moveCounters (the (map_of (activeGames (snd (processMove demoWorld 7 ''g1'' ''b'' (Num 1, Num 1)))) ''g1''))) ''b'' = Some 2 \<and>
   map_of (moveCounters (the (map_of (activeGames (snd (processMove demoWorld 7 ''g1'' ''a'' (Num 1, Num 0)))) ''g1''))) ''a'' = Some 1"
proof -
  obtain game where g: "findById demoWorld ''g1'' = Some game"
    using demo_game by blast
  have b2: "map_of (botPositions demoState) ''b'' = Some (Num 1, Num 0)"
    and b3: "map_of (botFinishTimes demoState) ''b'' = None"
    and a2: "map_of (botPositions demoState) ''a'' = Some (Num 0, Num 0)"
    and a3: "map_of (botFinishTimes demoState) ''a'' = None"
    by (simp_all add: demoState_def)
  have b4: "isValidMove (numbers (Num 1, Num 0)) (numbers (Num 1, Num 1))"
    and a4: "isValidMove (numbers (Num 0, Num 0)) (numbers (Num 1, Num 0))"
    by (simp_all add: isValidMove_def numbers_def)
  have b6: "\<not> checkBoundaryCollision (numbers (Num 1, Num 1))
       (int (length (grid demoState)), int (length (grid demoState ! 0)))"
    and a6: "\<not> checkBoundaryCollision (numbers (Num 1, Num 0))
       (int (length (grid demoState)), int (length (grid demoState ! 0)))"
    by (simp_all add: demoState_def checkBoundaryCollision_def numbers_def)
  from processMove_counts_attempts [OF demo_state b2 b3 b4 demo_grid(1) b6 g, of 7]
    processMove_counts_attempts [OF demo_state a2 a3 a4 demo_grid(1) a6 g, of 7]
  show ?thesis
    by (auto simp: demoState_def)
qed





section \<open>Starting a level and the position invariant\<close>















section \<open>Ranking and elimination\<close>

lemma slice_take:
  "0 \<le> k \<Longrightarrow> k \<le> int (length xs) \<Longrightarrow> slice xs 0 (Some k) = take (nat k) xs"
  by (simp add: slice_def relativeIndex_def Let_def min_def nat_le_iff)

lemma slice_drop:
  "0 \<le> k \<Longrightarrow> k \<le> int (length xs) \<Longrightarrow> slice xs k None = drop (nat k) xs"
  by (simp add: slice_def relativeIndex_def Let_def min_def nat_le_iff)

lemma foldl_updateBotGame:
  "foldl (\<lambda>w' x. updateBotGame (f x) (g x) w') w xs =
     w\<lparr>botGames := map (\<lambda>r. foldl (\<lambda>r' x. if bg_id r' = f x then g x r' else r') r xs) (botGames w)\<rparr>"
proof (induction xs arbitrary: w)
  case Nil
  show ?case by simp
next
  case (Cons x xs)
  show ?case by (simp add: Cons.IH) (simp add: updateBotGame_def comp_def)
qed

lemma mark_rows:
  "foldl (\<lambda>r' x. if bg_id r' = botGameId x then r'\<lparr>eliminated := True, eliminatedAt := Some lvl\<rparr> else r') r xs =
     (if bg_id r \<in> botGameId ` set xs then r\<lparr>eliminated := True, eliminatedAt := Some lvl\<rparr> else r)"
proof (induction xs arbitrary: r)
  case Nil
  show ?case by simp
next
  case (Cons x xs)
  show ?case by (simp add: Cons.IH)
qed

lemma rank_rows_shape:
  "\<exists>v. foldl (\<lambda>r' iq. if bg_id r' = botGameId (snd iq) then r'\<lparr>position := int (fst iq) + 1\<rparr> else r')
          r (enumerate m qs) = r\<lparr>position := v\<rparr>"
proof (induction qs arbitrary: m r)
  case Nil
  show ?case by (simp, rule exI [of _ "position r"]) simp
next
  case (Cons q qs)
  show ?case
  proof (cases "bg_id r = botGameId q")
    case True
    from Cons.IH [of "r\<lparr>position := int m + 1\<rparr>" "Suc m"] True show ?thesis by auto
  next
    case False
    from Cons.IH [of r "Suc m"] False show ?thesis by simp
  qed
qed

lemma rank_rows_other:
  "bg_id r \<notin> botGameId ` set qs \<Longrightarrow>
   foldl (\<lambda>r' iq. if bg_id r' = botGameId (snd iq) then r'\<lparr>position := int (fst iq) + 1\<rparr> else r')
      r (enumerate m qs) = r"
  by (induction qs arbitrary: m) auto

lemma rank_rows_position:
  assumes "distinct (map botGameId qs)" "i < length qs" "bg_id r = botGameId (qs ! i)"
  shows "position (foldl (\<lambda>r' iq. if bg_id r' = botGameId (snd iq) then r'\<lparr>position := int (fst iq) + 1\<rparr> else r')
            r (enumerate m qs)) = int (m + i) + 1"
  using assms
proof (induction qs arbitrary: m r i)
  case Nil
  then show ?case by simp
next
  case (Cons q qs)
  show ?case
  proof (cases i)
    case 0
    with Cons.prems have eq: "bg_id r = botGameId q" by simp
    from Cons.prems(1) eq have "bg_id (r\<lparr>position := int m + 1\<rparr>) \<notin> botGameId ` set qs" by auto
    from rank_rows_other [OF this, of "Suc m"] eq 0 show ?thesis by simp
  next
    case (Suc j)
    with Cons.prems have j: "j < length qs" "bg_id r = botGameId (qs ! j)" by simp_all
    from j(1) have "botGameId (qs ! j) \<in> botGameId ` set qs" by simp
    with j(2) Cons.prems(1) have ne: "bg_id r \<noteq> botGameId q" by auto
    from Cons.prems(1) have d: "distinct (map botGameId qs)" by simp
    from Cons.IH [OF d j, of "Suc m"] ne Suc show ?thesis by simp
  qed
qed

lemma participants_findById:
  "findById w gid = Some game \<Longrightarrow>
   participants game = sort_key position (filter (\<lambda>r. gameId r = gid) (botGames w))"
  by (auto simp: findById_def Game.defs GameWithRelations.defs split: option.splits)

lemma active_mset:
  assumes "findById w gid = Some game"
  shows "mset (filter (\<lambda>p. \<not> eliminated p) (participants game)) = mset (survivors w gid)"
proof -
  have "filter_mset (\<lambda>p. \<not> eliminated p) (filter_mset (\<lambda>r. gameId r = gid) (mset (botGames w))) =
        filter_mset (\<lambda>r. gameId r = gid \<and> \<not> eliminated r) (mset (botGames w))"
    by (induction "botGames w" arbitrary: w) (auto simp: multiset_eq_iff)
  then show ?thesis
    by (simp add: participants_findById [OF assms] survivors_def)
qed

lemma ranking_effective:
  "map_of (botFinishTimes gs) (botId p) = Some t \<Longrightarrow> t \<noteq> 0 \<Longrightarrow>
   ranking gs p = \<lparr>rk_botId = botId p, botGameId = bg_id p,
                   totalTime = Finite (effectiveTime gs p), rk_collisions = collisions p\<rparr>"
  by (simp add: ranking_def effectiveTime_def getPenaltySeconds_def COLLISION_PENALTY_SECONDS_def)

lemma ranking_ids [simp]: "botGameId (ranking gs p) = bg_id p" "rk_botId (ranking gs p) = botId p"
  by (simp_all add: ranking_def Let_def)

lemma distinct_take_drop_count:
  assumes "distinct (map f xs)" "k \<le> length xs"
  shows "length (filter (\<lambda>x. f x \<notin> f ` set (drop k xs)) xs) = k"
proof -
  have xs: "xs = take k xs @ drop k xs" by simp
  from assms(1) have d: "distinct (map f (take k xs) @ map f (drop k xs))"
    by (simp flip: map_append)
  then have disj: "f ` set (take k xs) \<inter> f ` set (drop k xs) = {}" by simp
  have a: "filter (\<lambda>x. f x \<notin> f ` set (drop k xs)) (take k xs) = take k xs"
    using disj by (intro filter_True) auto
  have b: "filter (\<lambda>x. f x \<notin> f ` set (drop k xs)) (drop k xs) = []"
    by (intro filter_False) auto
  have "filter (\<lambda>x. f x \<notin> f ` set (drop k xs)) xs =
        filter (\<lambda>x. f x \<notin> f ` set (drop k xs)) (take k xs) @ filter (\<lambda>x. f x \<notin> f ` set (drop k xs)) (drop k xs)"
    by (subst xs, subst filter_append) simp
  with a b assms(2) show ?thesis by simp
qed

lemma length_filter_size:
  "length (filter (\<lambda>x. P (f x)) xs) = size (filter_mset P (mset (map f xs)))"
  by (induction xs) simp_all

lemma length_filter_image_mset:
  assumes "mset (map f xs) = mset (map g ys)"
  shows "length (filter (\<lambda>x. P (f x)) xs) = length (filter (\<lambda>y. P (g y)) ys)"
proof -
  have "length (filter (\<lambda>x. P (f x)) xs) = size (filter_mset P (mset (map f xs)))"
    by (rule length_filter_size)
  also have "\<dots> = size (filter_mset P (mset (map g ys)))" by (simp only: assms)
  also have "\<dots> = length (filter (\<lambda>y. P (g y)) ys)"
    by (rule length_filter_size [symmetric])
  finally show ?thesis .
qed

lemma ELIMINATION_MAP_cases:
  "map_of ELIMINATION_MAP lvl = Some E \<Longrightarrow> lvl = 1 \<and> E = 2 \<or> lvl = 2 \<and> E = 4 \<or> lvl = 3 \<and> E = 3"
  by (auto simp: ELIMINATION_MAP_def split: if_splits)

lemma eliminateBots_eq:
  fixes gs :: GameState and game :: GameWithRelations and E :: int
  defines "rs \<equiv> sort_key totalTime (map (ranking gs) (filter (\<lambda>p. \<not> eliminated p) (participants game)))"
  defines "k \<equiv> length rs - nat E"
  assumes st: "map_of (activeGames w) gid = Some gs"
    and game: "findById w gid = Some game"
    and tbl: "map_of ELIMINATION_MAP lvl = Some E"
    and enough: "nat E \<le> length rs"
  shows "eliminateBots w gid lvl =
     (Inr \<lparr>res_qualified = map rk_botId (take k rs), res_eliminated = map rk_botId (drop k rs),
           res_rankings = rs\<rparr>,
      w\<lparr>botGames := map (\<lambda>r.
          foldl (\<lambda>r' iq. if bg_id r' = botGameId (snd iq) then r'\<lparr>position := int (fst iq) + 1\<rparr> else r')
            (foldl (\<lambda>r' x. if bg_id r' = botGameId x then r'\<lparr>eliminated := True, eliminatedAt := Some lvl\<rparr> else r')
               r (drop k rs))
            (enumerate 0 (take k rs))) (botGames w)\<rparr>)"
proof -
  from ELIMINATION_MAP_cases [OF tbl] have E0: "0 \<le> E" by auto
  with enough have q: "0 \<le> int (length rs) - E" "int (length rs) - E \<le> int (length rs)"
    and nk: "nat (int (length rs) - E) = k"
    by (simp_all add: k_def nat_le_iff nat_diff_distrib')
  have sl1: "slice rs 0 (Some (int (length rs) - E)) = take k rs"
    using slice_take [OF q] nk by simp
  have sl2: "slice rs (int (length rs) - E) None = drop k rs"
    using slice_drop [OF q] nk by simp
  have len: "int (length (filter (\<lambda>p. \<not> eliminated p) (participants game))) = int (length rs)"
    by (simp add: rs_def)
  show ?thesis
    unfolding eliminateBots_def
    by (simp add: st game tbl Let_def foldl_updateBotGame comp_def flip: rs_def)
       (simp add: len sl1 sl2)
qed

lemma survivors_distinct:
  "distinct (map bg_id (botGames w)) \<Longrightarrow> distinct (map bg_id (survivors w gid))"
  by (simp add: survivors_def distinct_map_filter)

lemma rankings_ids_mset:
  assumes "findById w gid = Some game"
  shows "mset (map botGameId (sort_key totalTime
            (map (ranking gs) (filter (\<lambda>p. \<not> eliminated p) (participants game))))) =
         mset (map bg_id (survivors w gid))"
proof -
  have "mset (map botGameId (sort_key totalTime
            (map (ranking gs) (filter (\<lambda>p. \<not> eliminated p) (participants game))))) =
        image_mset botGameId (image_mset (ranking gs)
            (mset (filter (\<lambda>p. \<not> eliminated p) (participants game))))"
    by simp
  also have "\<dots> = image_mset bg_id (mset (survivors w gid))"
    unfolding active_mset [OF assms] by (simp add: image_mset.compositionality comp_def)
  finally show ?thesis by simp
qed

lemma same_row:
  assumes "distinct (map bg_id rows)" "r \<in> set rows" "p \<in> set rows" "bg_id r = bg_id p"
  shows "r = p"
  using assms by (meson distinct_map inj_onD)

text \<open>
  Claim C1 (amended). Let the round state and the match exist, let the participant rows
  have distinct keys, let \<open>E\<close> be the table's count for the round, and let there be at
  least \<open>E\<close> participants that are not eliminated, each with a recorded finish time other
  than 0. Then \<open>eliminateBots\<close> returns a ranking that holds exactly these participants,
  each with its effective time, in ascending order of effective time; the last \<open>E\<close> of the
  ranking are reported and marked eliminated at this round, the others are reported
  qualified, stay unmarked and get the positions 1, 2, \<dots> in ranking order; and the number
  of participants that are not eliminated drops by \<open>E\<close>: from 10 to 8 in round 1, from 8
  to 4 in round 2 and from 4 to 1 in round 3.
\<close>

theorem eliminateBots_ranks_and_culls:
  assumes st: "map_of (activeGames w) gid = Some gs"
    and game: "findById w gid = Some game"
    and pk: "distinct (map bg_id (botGames w))"
    and tbl: "map_of ELIMINATION_MAP lvl = Some E"
    and enough: "nat E \<le> length (survivors w gid)"
    and recorded: "\<forall>p\<in>set (survivors w gid). \<exists>t. map_of (botFinishTimes gs) (botId p) = Some t \<and> t \<noteq> 0"
  shows "\<exists>res w'. eliminateBots w gid lvl = (Inr res, w') \<and>
     mset (map (\<lambda>x. (rk_botId x, botGameId x, totalTime x)) (res_rankings res)) =
       mset (map (\<lambda>p. (botId p, bg_id p, Finite (effectiveTime gs p))) (survivors w gid)) \<and>
     sorted (map totalTime (res_rankings res)) \<and>
     res_qualified res = map rk_botId (take (length (survivors w gid) - nat E) (res_rankings res)) \<and>
     res_eliminated res = map rk_botId (drop (length (survivors w gid) - nat E) (res_rankings res)) \<and>
     length (res_eliminated res) = nat E \<and>
     (\<forall>i<length (res_rankings res). \<forall>r\<in>set (botGames w').
        bg_id r = botGameId (res_rankings res ! i) \<longrightarrow>
          (if i < length (survivors w gid) - nat E
           then \<not> eliminated r \<and> position r = int i + 1
           else eliminated r \<and> eliminatedAt r = Some lvl)) \<and>
     length (survivors w' gid) = length (survivors w gid) - nat E \<and>
     (lvl = 1 \<and> length (survivors w gid) = 10 \<longrightarrow> length (survivors w' gid) = 8) \<and>
     (lvl = 2 \<and> length (survivors w gid) = 8 \<longrightarrow> length (survivors w' gid) = 4) \<and>
     (lvl = 3 \<and> length (survivors w gid) = 4 \<longrightarrow> length (survivors w' gid) = 1)"
proof -
  define act where "act = filter (\<lambda>p. \<not> eliminated p) (participants game)"
  define rs where "rs = sort_key totalTime (map (ranking gs) act)"
  define n where "n = length (survivors w gid)"
  define k where "k = n - nat E"
  define D where "D = botGameId ` set (drop k rs)"
  define MARK where "MARK = (\<lambda>r :: BotGame. foldl (\<lambda>r' x. if bg_id r' = botGameId x
       then r'\<lparr>eliminated := True, eliminatedAt := Some lvl\<rparr> else r') r (drop k rs))"
  define POS where "POS = (\<lambda>r :: BotGame. foldl (\<lambda>r' iq. if bg_id r' = botGameId (snd iq)
       then r'\<lparr>position := int (fst iq) + 1\<rparr> else r') r (enumerate 0 (take k rs)))"
  define w' where "w' = w\<lparr>botGames := map (\<lambda>r. POS (MARK r)) (botGames w)\<rparr>"
  define res where "res = \<lparr>res_qualified = map rk_botId (take k rs),
     res_eliminated = map rk_botId (drop k rs), res_rankings = rs\<rparr>"
  have am: "mset act = mset (survivors w gid)"
    unfolding act_def by (rule active_mset [OF game])
  then have "size (mset act) = size (mset (survivors w gid))" by simp
  then have len: "length rs = n" by (simp add: rs_def n_def)
  have kn: "k \<le> length rs" by (simp add: k_def len)
  from enough have nE: "n - k = nat E" by (simp add: k_def n_def)
  have run: "eliminateBots w gid lvl = (Inr res, w')"
    using eliminateBots_eq [OF st game tbl, folded act_def, folded rs_def] enough
    by (simp add: len n_def k_def res_def w'_def MARK_def POS_def)
  have ids: "mset (map botGameId rs) = mset (map bg_id (survivors w gid))"
    unfolding rs_def act_def by (rule rankings_ids_mset [OF game])
  have dS: "distinct (map bg_id (survivors w gid))" by (rule survivors_distinct [OF pk])
  with ids have drs: "distinct (map botGameId rs)"
    by (metis mset_eq_imp_distinct_iff)
  have mark: "MARK r = (if bg_id r \<in> D then r\<lparr>eliminated := True, eliminatedAt := Some lvl\<rparr> else r)" for r
    unfolding MARK_def D_def by (rule mark_rows)
  have pos: "\<exists>v. POS r = r\<lparr>position := v\<rparr>" for r
    unfolding POS_def by (rule rank_rows_shape)
  have upd_id: "bg_id (POS (MARK r)) = bg_id r" for r
    using pos [of "MARK r"] by (auto simp: mark)
  have upd_game: "gameId (POS (MARK r)) = gameId r" for r
    using pos [of "MARK r"] by (auto simp: mark)
  have upd_elim: "eliminated (POS (MARK r)) = (bg_id r \<in> D \<or> eliminated r)" for r
    using pos [of "MARK r"] by (auto simp: mark)
  have upd_at: "bg_id r \<in> D \<Longrightarrow> eliminatedAt (POS (MARK r)) = Some lvl" for r
    using pos [of "MARK r"] by (auto simp: mark)
  have A: "mset (map (\<lambda>x. (rk_botId x, botGameId x, totalTime x)) rs) =
       mset (map (\<lambda>p. (botId p, bg_id p, Finite (effectiveTime gs p))) (survivors w gid))"
  proof -
    have "mset (map (\<lambda>x. (rk_botId x, botGameId x, totalTime x)) rs) =
          image_mset (\<lambda>p. (rk_botId (ranking gs p), botGameId (ranking gs p), totalTime (ranking gs p))) (mset act)"
      by (simp add: rs_def image_mset.compositionality comp_def)
    also have "\<dots> = image_mset (\<lambda>p. (botId p, bg_id p, Finite (effectiveTime gs p))) (mset (survivors w gid))"
      unfolding am
    proof (rule image_mset_cong)
      fix p assume "p \<in># mset (survivors w gid)"
      with recorded obtain t where "map_of (botFinishTimes gs) (botId p) = Some t" "t \<noteq> 0" by auto
      from ranking_effective [OF this]
      show "(rk_botId (ranking gs p), botGameId (ranking gs p), totalTime (ranking gs p)) =
            (botId p, bg_id p, Finite (effectiveTime gs p))" by simp
    qed
    finally show ?thesis by simp
  qed
  have B: "sorted (map totalTime rs)" by (simp add: rs_def)
  have C: "length (drop k rs) = nat E" using nE by (simp add: len)
  have Dm: "(if i < k then \<not> eliminated r \<and> position r = int i + 1
             else eliminated r \<and> eliminatedAt r = Some lvl)"
    if i: "i < length rs" and r: "r \<in> set (botGames w')" and eq: "bg_id r = botGameId (rs ! i)" for i r
  proof -
    from r obtain r0 where r0: "r0 \<in> set (botGames w)" "r = POS (MARK r0)"
      by (auto simp: w'_def)
    with eq have eq0: "bg_id r0 = botGameId (rs ! i)" by (simp add: upd_id)
    from i have "botGameId (rs ! i) \<in> set (map botGameId rs)" by simp
    also have "set (map botGameId rs) = set (map bg_id (survivors w gid))"
      using ids by (rule mset_eq_setD)
    finally obtain p where p: "p \<in> set (survivors w gid)" "bg_id p = botGameId (rs ! i)" by auto
    from p(1) have pw: "p \<in> set (botGames w)" "\<not> eliminated p" by (simp_all add: survivors_def)
    from same_row [OF pk r0(1) pw(1)] eq0 p(2) have "r0 = p" by simp
    with pw have live: "\<not> eliminated r0" by simp
    show ?thesis
    proof (cases "i < k")
      case True
      have notD: "bg_id r0 \<notin> D"
      proof
        assume "bg_id r0 \<in> D"
        then obtain x where x: "x \<in> set (drop k rs)" "botGameId x = botGameId (rs ! i)"
          by (auto simp: D_def eq0)
        then obtain j where j: "j < length (drop k rs)" "drop k rs ! j = x"
          by (auto simp: in_set_conv_nth)
        then have j': "k + j < length rs" "rs ! (k + j) = x" by auto
        with x(2) have "map botGameId rs ! (k + j) = map botGameId rs ! i" using i by simp
        with nth_eq_iff_index_eq [OF drs, of "k + j" i] j'(1) i have "k + j = i" by simp
        with True show False by simp
      qed
      then have m: "MARK r0 = r0" by (simp add: mark)
      from drs have dt: "distinct (map botGameId (take k rs))"
        by (simp add: take_map [symmetric] distinct_take)
      have "position (POS r0) = int (0 + i) + 1"
        unfolding POS_def
        by (rule rank_rows_position [OF dt]) (use True kn eq0 in simp_all)
      with True r0(2) m live notD upd_elim [of r0] show ?thesis by simp
    next
      case False
      with i have "drop k rs ! (i - k) = rs ! i" "i - k < length (drop k rs)" by simp_all
      then have "rs ! i \<in> set (drop k rs)" by (metis nth_mem)
      then have "bg_id r0 \<in> D" unfolding D_def eq0 by (rule imageI)
      with False r0(2) upd_elim [of r0] upd_at [of r0] show ?thesis by simp
    qed
  qed
  have Ecount: "length (survivors w' gid) = n - nat E"
  proof -
    have "survivors w' gid =
          filter (\<lambda>r. gameId r = gid \<and> \<not> eliminated r) (map (\<lambda>r. POS (MARK r)) (botGames w))"
      by (simp add: survivors_def w'_def)
    also have "\<dots> = map (\<lambda>r. POS (MARK r))
          (filter (\<lambda>r. gameId (POS (MARK r)) = gid \<and> \<not> eliminated (POS (MARK r))) (botGames w))"
      by (simp only: filter_map comp_def)
    finally have "length (survivors w' gid) =
          length (filter (\<lambda>r. gameId (POS (MARK r)) = gid \<and> \<not> eliminated (POS (MARK r))) (botGames w))"
      by (simp only: length_map)
    also have "(\<lambda>r. gameId (POS (MARK r)) = gid \<and> \<not> eliminated (POS (MARK r))) =
          (\<lambda>r. (gameId r = gid \<and> \<not> eliminated r) \<and> bg_id r \<notin> D)"
      unfolding upd_game upd_elim by (rule ext) blast
    also have "filter (\<lambda>r. (gameId r = gid \<and> \<not> eliminated r) \<and> bg_id r \<notin> D) (botGames w) =
          filter (\<lambda>r. bg_id r \<notin> D) (survivors w gid)"
      unfolding survivors_def by (simp only: filter_filter)
    also have "length (filter (\<lambda>r. bg_id r \<notin> D) (survivors w gid)) =
          length (filter (\<lambda>x. botGameId x \<notin> D) rs)"
      by (rule length_filter_image_mset [OF ids [symmetric]])
    also have "\<dots> = k"
      unfolding D_def by (rule distinct_take_drop_count [OF drs kn])
    finally show ?thesis by (simp add: k_def)
  qed
  from ELIMINATION_MAP_cases [OF tbl]
  have scen: "(lvl = 1 \<and> n = 10 \<longrightarrow> length (survivors w' gid) = 8) \<and>
     (lvl = 2 \<and> n = 8 \<longrightarrow> length (survivors w' gid) = 4) \<and>
     (lvl = 3 \<and> n = 4 \<longrightarrow> length (survivors w' gid) = 1)"
    by (auto simp: Ecount)
  have "eliminateBots w gid lvl = (Inr res, w') \<and>
     mset (map (\<lambda>x. (rk_botId x, botGameId x, totalTime x)) (res_rankings res)) =
       mset (map (\<lambda>p. (botId p, bg_id p, Finite (effectiveTime gs p))) (survivors w gid)) \<and>
     sorted (map totalTime (res_rankings res)) \<and>
     res_qualified res = map rk_botId (take (length (survivors w gid) - nat E) (res_rankings res)) \<and>
     res_eliminated res = map rk_botId (drop (length (survivors w gid) - nat E) (res_rankings res)) \<and>
     length (res_eliminated res) = nat E \<and>
     (\<forall>i<length (res_rankings res). \<forall>r\<in>set (botGames w').
        bg_id r = botGameId (res_rankings res ! i) \<longrightarrow>
          (if i < length (survivors w gid) - nat E
           then \<not> eliminated r \<and> position r = int i + 1
           else eliminated r \<and> eliminatedAt r = Some lvl)) \<and>
     length (survivors w' gid) = length (survivors w gid) - nat E \<and>
     (lvl = 1 \<and> length (survivors w gid) = 10 \<longrightarrow> length (survivors w' gid) = 8) \<and>
     (lvl = 2 \<and> length (survivors w gid) = 8 \<longrightarrow> length (survivors w' gid) = 4) \<and>
     (lvl = 3 \<and> length (survivors w gid) = 4 \<longrightarrow> length (survivors w' gid) = 1)"
  proof (intro conjI)
    show "eliminateBots w gid lvl = (Inr res, w')" by (rule run)
    show "mset (map (\<lambda>x. (rk_botId x, botGameId x, totalTime x)) (res_rankings res)) =
       mset (map (\<lambda>p. (botId p, bg_id p, Finite (effectiveTime gs p))) (survivors w gid))"
      using A by (simp add: res_def)
    show "sorted (map totalTime (res_rankings res))" using B by (simp add: res_def)
    show "res_qualified res = map rk_botId (take (length (survivors w gid) - nat E) (res_rankings res))"
      by (simp add: res_def k_def n_def)
    show "res_eliminated res = map rk_botId (drop (length (survivors w gid) - nat E) (res_rankings res))"
      by (simp add: res_def k_def n_def)
    show "length (res_eliminated res) = nat E" using C by (simp add: res_def)
    show "\<forall>i<length (res_rankings res). \<forall>r\<in>set (botGames w').
        bg_id r = botGameId (res_rankings res ! i) \<longrightarrow>
          (if i < length (survivors w gid) - nat E
           then \<not> eliminated r \<and> position r = int i + 1
           else eliminated r \<and> eliminatedAt r = Some lvl)"
      using Dm by (simp add: res_def k_def n_def)
    show "length (survivors w' gid) = length (survivors w gid) - nat E"
      using Ecount by (simp add: n_def)
    show "lvl = 1 \<and> length (survivors w gid) = 10 \<longrightarrow> length (survivors w' gid) = 8"
      using scen by (simp add: n_def)
    show "lvl = 2 \<and> length (survivors w gid) = 8 \<longrightarrow> length (survivors w' gid) = 4"
      using scen by (simp add: n_def)
    show "lvl = 3 \<and> length (survivors w gid) = 4 \<longrightarrow> length (survivors w' gid) = 1"
      using scen by (simp add: n_def)
  qed
  then show ?thesis by blast
qed

text \<open>The theorem on the match of ten bots in round 1: eight of them are left.\<close>

theorem eliminateBots_ranks_and_culls_witness:
  "length (survivors tenWorld ''g1'') = 10 \<and>
   (\<exists>res w'. eliminateBots tenWorld ''g1'' 1 = (Inr res, w') \<and>
      length (res_eliminated res) = 2 \<and> sorted (map totalTime (res_rankings res)) \<and>
      length (survivors w' ''g1'') = 8)"
proof -
  have st: "map_of (activeGames tenWorld) ''g1'' = Some tenState" by code_simp
  have "findById tenWorld ''g1'' \<noteq> None" by code_simp
  then obtain game where game: "findById tenWorld ''g1'' = Some game" by blast
  have pk: "distinct (map bg_id (botGames tenWorld))" by code_simp
  have tbl: "map_of ELIMINATION_MAP 1 = Some 2" by code_simp
  have n: "length (survivors tenWorld ''g1'') = 10" by code_simp
  then have enough: "nat 2 \<le> length (survivors tenWorld ''g1'')" by simp
  have "list_all (\<lambda>p. case map_of (botFinishTimes tenState) (botId p) of None \<Rightarrow> False | Some t \<Rightarrow> t \<noteq> 0)
          (survivors tenWorld ''g1'')"
    by code_simp
  then have recorded: "\<forall>p\<in>set (survivors tenWorld ''g1'').
      \<exists>t. map_of (botFinishTimes tenState) (botId p) = Some t \<and> t \<noteq> 0"
    unfolding list_all_iff by (auto split: option.splits)
  from eliminateBots_ranks_and_culls [OF st game pk tbl enough recorded]
  obtain res w' where r: "eliminateBots tenWorld ''g1'' 1 = (Inr res, w')"
    and s: "sorted (map totalTime (res_rankings res))"
    and e: "length (res_eliminated res) = nat 2"
    and c: "1 = (1::int) \<and> length (survivors tenWorld ''g1'') = 10 \<longrightarrow> length (survivors w' ''g1'') = 8"
    by blast
  from c n have "length (survivors w' ''g1'') = 8" by simp
  with r s e n show ?thesis by simp
qed

text \<open>
  Claim C1 as stated fails on two inputs. With three participants in round 2 the table
  asks for four eliminations; the negative slice index then cuts off one participant, so
  one is eliminated and two qualify. And a participant with the recorded finish time 0
  is ranked with an infinite time: bot \<open>a\<close>, whose effective time 0 is the least, is
  ranked last and eliminated.
\<close>

theorem eliminateBots_counterexample:
  "map_of ELIMINATION_MAP 2 = Some 4 \<and>
   length (survivors smallWorld ''g1'') = 3 \<and>
   fst (eliminateBots smallWorld ''g1'' 2) =
     Inr \<lparr>res_qualified = [''b'', ''a''], res_eliminated = [''c''],
          res_rankings =
            [\<lparr>rk_botId = ''b'', botGameId = ''r2'', totalTime = Finite 700, rk_collisions = 0\<rparr>,
             \<lparr>rk_botId = ''a'', botGameId = ''r1'', totalTime = Finite 900, rk_collisions = 0\<rparr>,
             \<lparr>rk_botId = ''c'', botGameId = ''r3'', totalTime = Finite 21200, rk_collisions = 2\<rparr>]\<rparr> \<and>
   length (survivors (snd (eliminateBots smallWorld ''g1'' 2)) ''g1'') = 2 \<and>
   map_of (botFinishTimes zeroState) ''a'' = Some 0 \<and>
   fst (eliminateBots zeroWorld ''g1'' 1) =
     Inr \<lparr>res_qualified = [''b''], res_eliminated = [''c'', ''a''],
          res_rankings =
            [\<lparr>rk_botId = ''b'', botGameId = ''r2'', totalTime = Finite 700, rk_collisions = 0\<rparr>,
             \<lparr>rk_botId = ''c'', botGameId = ''r3'', totalTime = Finite 21200, rk_collisions = 2\<rparr>,
             \<lparr>rk_botId = ''a'', botGameId = ''r1'', totalTime = Infinity, rk_collisions = 0\<rparr>]\<rparr>"
  by code_simp

end
